theory Spec2Isabelle
  imports Complex_Main "HOL-Library.Word" "HOL-Library.Multiset"
begin

section \<open>Recording and saving in the DCAM live viewer\<close>

text \<open>
  The development embeds the recording part of \<^verbatim>\<open>main()\<close> in \<^verbatim>\<open>src/main.cpp\<close>. That file
  holds two revisions of the program, one after the other; the line numbers are those of
  the first, lines 889 to 1073, which has the capture button and the metadata file. Embedded
  are the save state declared at lines 890 to 896, the handlers \<^verbatim>\<open>startSaving\<close>, \<^verbatim>\<open>stopSaving\<close> and the capture-button handler, the record
  hook that the frame grabber calls for every acquired frame, and the detached thread that
  \<^verbatim>\<open>stopSaving\<close> starts to write the sequence.

  Three execution contexts touch the save state: the GUI thread (handlers), the acquisition
  thread (record hook) and the save thread. Each of them is a small program whose
  statements on shared state are single steps; a schedule (a list of actions) picks which
  context moves next, so that every interleaving of them is a schedule.
\<close>

subsection \<open>Text formatting done by the Qt library\<close>

definition digit_char :: "nat \<Rightarrow> char" where
  "digit_char d = ''0123456789'' ! d"

fun string_of_nat :: "nat \<Rightarrow> string" where
  "string_of_nat n =
     (if n < 10 then [digit_char n] else string_of_nat (n div 10) @ [digit_char (n mod 10)])"

declare string_of_nat.simps [simp del]

definition string_of_int :: "int \<Rightarrow> string" where
  "string_of_int a =
     (if a < 0 then CHR ''-'' # string_of_nat (nat (- a)) else string_of_nat (nat a))"

text \<open>
  \<^verbatim>\<open>QString::arg(int a, int fieldWidth, int base, QChar fillChar)\<close> with base 10 and a
  positive field width: the decimal text of \<open>a\<close>, its sign included, padded on the left
  with the fill character up to the field width.
\<close>

definition arg_int :: "int \<Rightarrow> nat \<Rightarrow> char \<Rightarrow> string" where
  "arg_int a fieldWidth fillChar =
     replicate (fieldWidth - length (string_of_int a)) fillChar @ string_of_int a"

text \<open>\<^verbatim>\<open>static_cast<int>\<close> of a \<^verbatim>\<open>size_t\<close>: the low 32 bits, read as two's complement.\<close>

definition cast_int :: "nat \<Rightarrow> int" where
  "cast_int n = sint (word_of_nat n :: 32 word)"

text \<open>
  \<^verbatim>\<open>std::ceil(std::log10(n))\<close> for \<open>n \<ge> 1\<close>, in exact arithmetic: the least \<open>k\<close> with
  \<open>n \<le> 10 ^ k\<close> (lemmas \<open>ceil_log10_le\<close>, \<open>ceil_log10_least\<close> and \<open>ceil_log10_real\<close> below).
  The rounding of the floating-point \<^verbatim>\<open>log10\<close> is not modelled.
\<close>

fun ceil_log10 :: "nat \<Rightarrow> nat" where
  "ceil_log10 n = (if n \<le> 1 then 0 else Suc (ceil_log10 ((n + 9) div 10)))"

declare ceil_log10.simps [simp del]

text \<open>Line 1002: the field width of the frame file names.\<close>

definition name_width :: "nat \<Rightarrow> nat" where
  "name_width n = max 6 (ceil_log10 (max 1 n))"

text \<open>Line 1005: the file name of frame \<open>i\<close>.\<close>

definition frame_file_name :: "nat \<Rightarrow> nat \<Rightarrow> string" where
  "frame_file_name w i = arg_int (cast_int i) w CHR ''0'' @ ''.tiff''"

text \<open>Zero-padded decimal fields of the date formats.\<close>

definition zpad :: "nat \<Rightarrow> nat \<Rightarrow> string" where
  "zpad w n = replicate (w - length (string_of_nat n)) CHR ''0'' @ string_of_nat n"

record QDateTime =
  year :: nat
  month :: nat
  day :: nat
  hour :: nat
  minute :: nat
  second :: nat
  msec :: nat

text \<open>\<^verbatim>\<open>toString("yyyyMMdd_hhmmss")\<close>, line 972.\<close>

definition fmt_dir :: "QDateTime \<Rightarrow> string" where
  "fmt_dir t = zpad 4 (year t) @ zpad 2 (month t) @ zpad 2 (day t) @ ''_''
     @ zpad 2 (hour t) @ zpad 2 (minute t) @ zpad 2 (second t)"

text \<open>\<^verbatim>\<open>toString("yyyyMMdd_hhmmss_zzz")\<close>, line 920.\<close>

definition fmt_capture :: "QDateTime \<Rightarrow> string" where
  "fmt_capture t = fmt_dir t @ ''_'' @ zpad 3 (msec t)"

text \<open>
  \<^verbatim>\<open>toString("yyyy-MM-dd hh:mm:ss.zzz")\<close>, line 999. \<^verbatim>\<open>recordStartTime\<close> is default
  constructed (invalid) until the first start; an invalid date prints as the empty string.
\<close>

definition fmt_start :: "QDateTime option \<Rightarrow> string" where
  "fmt_start d = (case d of
       None \<Rightarrow> []
     | Some t \<Rightarrow> zpad 4 (year t) @ ''-'' @ zpad 2 (month t) @ ''-'' @ zpad 2 (day t) @ '' ''
         @ zpad 2 (hour t) @ '':'' @ zpad 2 (minute t) @ '':'' @ zpad 2 (second t)
         @ ''.'' @ zpad 3 (msec t))"


text \<open>\<^verbatim>\<open>QDir(d).filePath(f)\<close> for a relative file name and \<^verbatim>\<open>outDir + "/" + fname\<close>.\<close>

definition filePath :: "string \<Rightarrow> string \<Rightarrow> string" where
  "filePath d f = d @ ''/'' @ f"

subsection \<open>Data\<close>

text \<open>A \<^verbatim>\<open>QImage\<close> is either null or holds pixel data; \<^verbatim>\<open>copy()\<close> yields an equal image.\<close>

datatype QImage = NullImage | Image "nat list"

definition isNull :: "QImage \<Rightarrow> bool" where
  "isNull im = (im = NullImage)"

text \<open>
  Modelled from the spec: \<^verbatim>\<open>FrameMeta\<close> is declared in \<^verbatim>\<open>frame_types.h\<close>, which is not
  among the sources; the fields are the ones \<^verbatim>\<open>main.cpp\<close> reads (lines 1021 to 1026 and
  1066 to 1068) and section 3 of the specification lists, the ones printed with a float
  format as reals.
\<close>

record FrameMeta =
  width :: int
  height :: int
  binning :: real
  bits :: int
  frameIndex :: int
  delivered :: int
  dropped :: int
  internalFps :: real
  readoutSpeed :: real

text \<open>
  What a \<^verbatim>\<open>QTextStream\<close> is given with \<^verbatim>\<open><<\<close>: a file is the list of its lines, a line the
  list of the values streamed before its \<^verbatim>\<open>"\n"\<close>. How Qt prints a number is left open.
\<close>

datatype tok = TStr string | TInt int | TSize nat | TDbl real

datatype disk_file = TiffFile QImage | TextFile "tok list list"

text \<open>Calls queued for the GUI thread with \<^verbatim>\<open>QMetaObject::invokeMethod(..., Qt::QueuedConnection)\<close>.\<close>

datatype ui_call = SetProgress int | SetStatus string | HideDialog

text \<open>
  The save thread's captures (line 1001), its loop index \<open>w_i\<close> and its position:
  in the loop of lines 1003 to 1014, before the metadata file (1016), before the queued
  calls (1031), before \<^verbatim>\<open>saving = false\<close> (1039).
\<close>

datatype worker_pc = W_loop | W_info | W_signal | W_clear

record worker =
  frames :: "QImage list"
  outDir :: string
  metaCopy :: FrameMeta
  expMsCopy :: real
  recordStartStr :: string
  w_i :: nat
  wpc :: worker_pc

text \<open>
  Positions of the GUI thread inside \<^verbatim>\<open>startSaving\<close> (931, 935, 937, 938, 939, 940, 941)
  and \<^verbatim>\<open>stopSaving\<close> (952, 953, 960, 961, 962, 963, 968, 976, 997), with the handler's
  local variables \<^verbatim>\<open>frames\<close> and \<^verbatim>\<open>outDir\<close> once they are set. Each names the statement
  that runs next.
\<close>

datatype ui_pc =
    Idle
  | Start_check | Start_set | Start_lock | Start_clear | Start_unlock | Start_reset
  | Start_finish
  | Stop_check | Stop_clear | Stop_lock | Stop_swap | Stop_unlock "QImage list"
  | Stop_empty "QImage list" | Stop_mkdir "QImage list" | Stop_saving "QImage list" string
  | Stop_spawn "QImage list" string

text \<open>Positions of the acquisition thread inside the record hook (1055, 1056, 1057, 1058).\<close>

datatype acq_pc = A_idle | A_lock QImage | A_push QImage | A_inc | A_unlock

datatype tid = UI | ACQ

text \<open>
  The variables of lines 890 to 896 and 705 to 706, the widgets the handlers set, the
  requested directories and written files, the queue of calls posted to the GUI thread,
  and the three contexts. \<^verbatim>\<open>recordedFrames\<close> is a \<^verbatim>\<open>std::atomic<int>\<close>.
\<close>

record sys =
  saveBuffer :: "QImage list"
  saveMutex :: "tid option"
  recording :: bool
  saving :: bool
  recordStartTime :: "QDateTime option"
  recordedFrames :: "32 word"
  lastFrame :: QImage
  lastMeta :: FrameMeta
  statusLabel :: string
  saveStartBtn :: bool
  saveStopBtn :: bool
  savingDialog :: bool
  savingProgress :: int
  dirs :: "string list"
  disk :: "(string \<times> disk_file) list"
  ui_queue :: "ui_call list"
  ui_pc :: ui_pc
  acq_pc :: acq_pc
  workers :: "worker list"

text \<open>
  What a handler reads from outside the save state when it runs: the clock, the text of
  \<^verbatim>\<open>savePathEdit\<close>, the application directory, the value of \<^verbatim>\<open>exposureSpin\<close>, and whether
  the codec writes the captured frame.
\<close>

record ui_env =
  now :: QDateTime
  savePathText :: string
  applicationDirPath :: string
  exposureValue :: real
  save_ok :: bool

definition baseDir :: "ui_env \<Rightarrow> string" where
  "baseDir e = (if savePathText e = [] then applicationDirPath e else savePathText e)"

subsection \<open>The save thread\<close>

text \<open>Lines 1019 to 1026.\<close>

definition capture_info :: "worker \<Rightarrow> tok list list" where
  "capture_info w =
    [[TStr ''Start: '', TStr (recordStartStr w)],
     [TStr ''Frames: '', TSize (length (frames w))],
     [TStr ''Resolution: '', TInt (width (metaCopy w)), TStr '' x '', TInt (height (metaCopy w))],
     [TStr ''Binning: '', TDbl (binning (metaCopy w))],
     [TStr ''Bits: '', TInt (bits (metaCopy w))],
     [TStr ''Exposure(ms): '', TDbl (expMsCopy w)],
     [TStr ''Internal FPS: '', TDbl (internalFps (metaCopy w))],
     [TStr ''Readout speed: '', TDbl (readoutSpeed (metaCopy w))]]"

definition frame_path :: "worker \<Rightarrow> nat \<Rightarrow> string" where
  "frame_path w i = filePath (outDir w) (frame_file_name (name_width (length (frames w))) i)"

text \<open>
  One step of save thread \<open>k\<close>; \<open>ok\<close> is the outcome of the step's file operation
  (\<^verbatim>\<open>im.save\<close>, whose result the loop ignores, or \<^verbatim>\<open>infoFile.open\<close>). The progress bar and
  the dialog exist once \<^verbatim>\<open>stopSaving\<close> has run, so the tests of lines 1008 and 1034 on
  their pointers hold. The last step clears \<^verbatim>\<open>saving\<close> and ends the thread. Log lines
  are left out.
\<close>

definition worker_step :: "nat \<Rightarrow> bool \<Rightarrow> sys \<Rightarrow> sys" where
  "worker_step k ok s =
    (if k < length (workers s) then
       (let w = workers s ! k in
        case wpc w of
          W_loop \<Rightarrow>
            if w_i w < length (frames w) then
              s\<lparr>disk := (if ok then disk s @ [(frame_path w (w_i w), TiffFile (frames w ! w_i w))]
                          else disk s),
                ui_queue := (if w_i w mod 100 = 0 \<or> w_i w + 1 = length (frames w)
                             then ui_queue s @ [SetProgress (cast_int (w_i w + 1))]
                             else ui_queue s),
                workers := (workers s)[k := w\<lparr>w_i := w_i w + 1\<rparr>]\<rparr>
            else s\<lparr>workers := (workers s)[k := w\<lparr>wpc := W_info\<rparr>]\<rparr>
        | W_info \<Rightarrow>
            s\<lparr>disk := (if ok then disk s @ [(filePath (outDir w) ''capture_info.txt'',
                                               TextFile (capture_info w))]
                        else disk s),
              workers := (workers s)[k := w\<lparr>wpc := W_signal\<rparr>]\<rparr>
        | W_signal \<Rightarrow>
            s\<lparr>ui_queue := ui_queue s @ [SetStatus ''Save complete'', HideDialog],
              workers := (workers s)[k := w\<lparr>wpc := W_clear\<rparr>]\<rparr>
        | W_clear \<Rightarrow>
            s\<lparr>saving := False, workers := take k (workers s) @ drop (Suc k) (workers s)\<rparr>)
     else s)"

subsection \<open>The record hook\<close>

text \<open>Line 1054: the hook returns at once when \<^verbatim>\<open>recording\<close> reads false.\<close>

definition recordHook :: "QImage \<Rightarrow> sys \<Rightarrow> sys" where
  "recordHook img s = (if \<not> recording s then s else s\<lparr>acq_pc := A_lock img\<rparr>)"

text \<open>Lines 1055 to 1058; the thread waits at 1055 while the mutex is held.\<close>

definition acq_step :: "sys \<Rightarrow> sys" where
  "acq_step s =
    (case acq_pc s of
       A_idle \<Rightarrow> s
     | A_lock img \<Rightarrow>
         if saveMutex s = None then s\<lparr>saveMutex := Some ACQ, acq_pc := A_push img\<rparr> else s
     | A_push img \<Rightarrow> s\<lparr>saveBuffer := saveBuffer s @ [img], acq_pc := A_inc\<rparr>
     | A_inc \<Rightarrow> s\<lparr>recordedFrames := recordedFrames s + 1, acq_pc := A_unlock\<rparr>
     | A_unlock \<Rightarrow> s\<lparr>saveMutex := None, acq_pc := A_idle\<rparr>)"

subsection \<open>The GUI thread\<close>

text \<open>
  One statement of the running handler. The timers, the log lines, \<^verbatim>\<open>saveInfoLabel\<close> and
  the construction of the dialog are left out.
\<close>

definition ui_step :: "ui_env \<Rightarrow> sys \<Rightarrow> sys" where
  "ui_step e s =
    (case ui_pc s of
       Idle \<Rightarrow> s
     | Start_check \<Rightarrow>
         if saving s then s\<lparr>statusLabel := ''Already saving to disk'', ui_pc := Idle\<rparr>
         else s\<lparr>ui_pc := Start_set\<rparr>
     | Start_set \<Rightarrow> s\<lparr>recording := True, ui_pc := Start_lock\<rparr>
     | Start_lock \<Rightarrow>
         if saveMutex s = None then s\<lparr>saveMutex := Some UI, ui_pc := Start_clear\<rparr> else s
     | Start_clear \<Rightarrow> s\<lparr>saveBuffer := [], ui_pc := Start_unlock\<rparr>
     | Start_unlock \<Rightarrow> s\<lparr>saveMutex := None, ui_pc := Start_reset\<rparr>
     | Start_reset \<Rightarrow> s\<lparr>recordedFrames := 0, ui_pc := Start_finish\<rparr>
     | Start_finish \<Rightarrow>
         s\<lparr>recordStartTime := Some (now e), saveStartBtn := False, saveStopBtn := True,
           statusLabel := ''Recording...'', ui_pc := Idle\<rparr>
     | Stop_check \<Rightarrow> if \<not> recording s then s\<lparr>ui_pc := Idle\<rparr> else s\<lparr>ui_pc := Stop_clear\<rparr>
     | Stop_clear \<Rightarrow>
         s\<lparr>recording := False, saveStartBtn := True, saveStopBtn := False, ui_pc := Stop_lock\<rparr>
     | Stop_lock \<Rightarrow>
         if saveMutex s = None then s\<lparr>saveMutex := Some UI, ui_pc := Stop_swap\<rparr> else s
     | Stop_swap \<Rightarrow> s\<lparr>saveBuffer := [], ui_pc := Stop_unlock (saveBuffer s)\<rparr>
     | Stop_unlock fr \<Rightarrow> s\<lparr>saveMutex := None, ui_pc := Stop_empty fr\<rparr>
     | Stop_empty fr \<Rightarrow>
         if fr = [] then s\<lparr>statusLabel := ''No frames to save'', ui_pc := Idle\<rparr>
         else s\<lparr>ui_pc := Stop_mkdir fr\<rparr>
     | Stop_mkdir fr \<Rightarrow>
         s\<lparr>dirs := dirs s @ [baseDir e, filePath (baseDir e) (fmt_dir (now e))],
           ui_pc := Stop_saving fr (filePath (baseDir e) (fmt_dir (now e)))\<rparr>
     | Stop_saving fr out \<Rightarrow>
         s\<lparr>saving := True, statusLabel := ''Saving to disk...'', savingProgress := 0,
           savingDialog := True, ui_pc := Stop_spawn fr out\<rparr>
     | Stop_spawn fr out \<Rightarrow>
         s\<lparr>workers := workers s @
             [\<lparr>frames = fr, outDir = out, metaCopy = lastMeta s, expMsCopy = exposureValue e,
               recordStartStr = fmt_start (recordStartTime s), w_i = 0, wpc = W_loop\<rparr>],
           ui_pc := Idle\<rparr>)"

text \<open>A handler runs until it returns: at most \<open>n\<close> statements, none once the thread is idle.\<close>

fun ui_run :: "nat \<Rightarrow> ui_env \<Rightarrow> sys \<Rightarrow> sys" where
  "ui_run 0 e s = s"
| "ui_run (Suc n) e s = (if ui_pc s = Idle then s else ui_run n e (ui_step e s))"

text \<open>The handlers run alone, from their first statement.\<close>

definition startSaving :: "ui_env \<Rightarrow> sys \<Rightarrow> sys" where
  "startSaving e s = ui_run 7 e (s\<lparr>ui_pc := Start_check\<rparr>)"

definition stopSaving :: "ui_env \<Rightarrow> sys \<Rightarrow> sys" where
  "stopSaving e s = ui_run 9 e (s\<lparr>ui_pc := Stop_check\<rparr>)"

text \<open>Lines 911 to 928, the capture button: it touches no shared variable and is one step.\<close>

definition captureFrame :: "ui_env \<Rightarrow> sys \<Rightarrow> sys" where
  "captureFrame e s =
    (if isNull (lastFrame s) then s\<lparr>statusLabel := ''No frame to capture''\<rparr>
     else if save_ok e then
       s\<lparr>dirs := dirs s @ [baseDir e],
         disk := disk s @ [(filePath (baseDir e) (fmt_capture (now e) @ ''.tiff''),
                            TiffFile (lastFrame s))],
         statusLabel := ''Captured: '' @ fmt_capture (now e) @ ''.tiff''\<rparr>
     else s\<lparr>dirs := dirs s @ [baseDir e], statusLabel := ''Capture failed''\<rparr>)"

text \<open>Lines 1060 to 1065, the slot of \<^verbatim>\<open>frameReady\<close>; the display is left out.\<close>

definition frameReady :: "QImage \<Rightarrow> FrameMeta \<Rightarrow> sys \<Rightarrow> sys" where
  "frameReady img meta s =
     s\<lparr>lastFrame := (if isNull img then lastFrame s else img), lastMeta := meta\<rparr>"

text \<open>The event loop runs the oldest queued call.\<close>

definition ui_dispatch :: "sys \<Rightarrow> sys" where
  "ui_dispatch s =
    (case ui_queue s of
       [] \<Rightarrow> s
     | SetProgress v # q \<Rightarrow> s\<lparr>savingProgress := v, ui_queue := q\<rparr>
     | SetStatus t # q \<Rightarrow> s\<lparr>statusLabel := t, ui_queue := q\<rparr>
     | HideDialog # q \<Rightarrow> s\<lparr>savingDialog := False, ui_queue := q\<rparr>)"

subsection \<open>Schedules\<close>

text \<open>
  The buttons call their handlers (lines 1043 and 1044) only while enabled, the modal
  saving dialog (lines 982 and 995) keeps clicks from the main window while it is shown,
  and the GUI thread takes a new event only when no handler runs. An action that cannot
  happen in a state leaves it as it is.
\<close>

text \<open>
  Modelled from the spec: the frame grabber (\<^verbatim>\<open>frame_grabber.h\<close>) is not among the
  sources. By section 4.1 of the specification it runs the acquisition loop in a context
  of its own and calls the record hook there, synchronously, for every acquired frame;
  its \<^verbatim>\<open>frameReady\<close> signal is taken to reach the slot in the GUI thread, between
  handlers. When the grabber calls, and with which image, is left to the schedule.
\<close>

datatype action =
    ClickStart | ClickStop | ClickCapture ui_env | FrameReady QImage FrameMeta | UiDispatch
  | UiStep ui_env
  | Hook QImage | AcqStep
  | WorkerStep nat bool

fun step :: "action \<Rightarrow> sys \<Rightarrow> sys" where
  "step ClickStart s =
     (if ui_pc s = Idle \<and> saveStartBtn s \<and> \<not> savingDialog s then s\<lparr>ui_pc := Start_check\<rparr>
      else s)"
| "step ClickStop s =
     (if ui_pc s = Idle \<and> saveStopBtn s \<and> \<not> savingDialog s then s\<lparr>ui_pc := Stop_check\<rparr>
      else s)"
| "step (ClickCapture e) s =
     (if ui_pc s = Idle \<and> \<not> savingDialog s then captureFrame e s else s)"
| "step (FrameReady img meta) s = (if ui_pc s = Idle then frameReady img meta s else s)"
| "step UiDispatch s = (if ui_pc s = Idle then ui_dispatch s else s)"
| "step (UiStep e) s = ui_step e s"
| "step (Hook img) s = (if acq_pc s = A_idle then recordHook img s else s)"
| "step AcqStep s = acq_step s"
| "step (WorkerStep k ok) s = worker_step k ok s"

fun run :: "action list \<Rightarrow> sys \<Rightarrow> sys" where
  "run [] s = s"
| "run (a # as) s = run as (step a s)"

text \<open>The state when \<^verbatim>\<open>main()\<close> enters the event loop.\<close>

definition init :: sys where
  "init = \<lparr>saveBuffer = [], saveMutex = None, recording = False, saving = False,
     recordStartTime = None, recordedFrames = 0, lastFrame = NullImage,
     lastMeta = \<lparr>width = 0, height = 0, binning = 0, bits = 0, frameIndex = 0, delivered = 0,
       dropped = 0, internalFps = 0, readoutSpeed = 0\<rparr>,
     statusLabel = [], saveStartBtn = True, saveStopBtn = False, savingDialog = False,
     savingProgress = 0, dirs = [], disk = [], ui_queue = [], ui_pc = Idle, acq_pc = A_idle,
     workers = []\<rparr>"

subsection \<open>Auxiliary notions for the proofs\<close>

text \<open>Where the GUI thread is: inside \<^verbatim>\<open>startSaving\<close> after the flag is set, inside
  \<^verbatim>\<open>stopSaving\<close> after the flag is cleared, and where each thread holds the mutex.\<close>

fun in_start :: "ui_pc \<Rightarrow> bool" where
  "in_start Start_lock = True"
| "in_start Start_clear = True"
| "in_start Start_unlock = True"
| "in_start Start_reset = True"
| "in_start Start_finish = True"
| "in_start _ = False"

fun in_stop :: "ui_pc \<Rightarrow> bool" where
  "in_stop Stop_lock = True"
| "in_stop Stop_swap = True"
| "in_stop (Stop_unlock fr) = True"
| "in_stop (Stop_empty fr) = True"
| "in_stop (Stop_mkdir fr) = True"
| "in_stop (Stop_saving fr out) = True"
| "in_stop (Stop_spawn fr out) = True"
| "in_stop _ = False"

fun ui_holds :: "ui_pc \<Rightarrow> bool" where
  "ui_holds Start_clear = True"
| "ui_holds Start_unlock = True"
| "ui_holds Stop_swap = True"
| "ui_holds (Stop_unlock fr) = True"
| "ui_holds _ = False"

fun acq_holds :: "acq_pc \<Rightarrow> bool" where
  "acq_holds (A_push img) = True"
| "acq_holds A_inc = True"
| "acq_holds A_unlock = True"
| "acq_holds _ = False"

text \<open>The flags, the buttons and the save threads, position by position.\<close>

definition flag_inv :: "sys \<Rightarrow> bool" where
  "flag_inv s =
    ((ui_pc s = Idle \<longrightarrow> saveStartBtn s = (\<not> recording s) \<and> saveStopBtn s = recording s) \<and>
     (ui_pc s = Start_check \<or> ui_pc s = Start_set \<longrightarrow>
        \<not> recording s \<and> saveStartBtn s \<and> \<not> saveStopBtn s) \<and>
     (in_start (ui_pc s) \<longrightarrow> recording s \<and> saveStartBtn s \<and> \<not> saveStopBtn s) \<and>
     (ui_pc s = Stop_check \<or> ui_pc s = Stop_clear \<longrightarrow>
        recording s \<and> \<not> saveStartBtn s \<and> saveStopBtn s) \<and>
     (in_stop (ui_pc s) \<longrightarrow>
        \<not> recording s \<and> saveStartBtn s \<and> \<not> saveStopBtn s \<and> workers s = []) \<and>
     (ui_pc s = Start_set \<longrightarrow> \<not> saving s) \<and>
     (saving s \<longrightarrow> \<not> recording s) \<and>
     (\<forall>fr out. ui_pc s = Stop_spawn fr out \<longrightarrow> saving s) \<and>
     (workers s \<noteq> [] \<longrightarrow> saving s \<and> length (workers s) = 1))"

definition mutex_inv :: "sys \<Rightarrow> bool" where
  "mutex_inv s =
    ((saveMutex s = Some UI) = ui_holds (ui_pc s) \<and>
     (saveMutex s = Some ACQ) = acq_holds (acq_pc s))"

text \<open>
  The frames in memory: the sequences of the save threads, the sequence
  \<^verbatim>\<open>stopSaving\<close> has swapped out and not yet handed over, and the buffer.
\<close>

fun ui_frames :: "ui_pc \<Rightarrow> QImage list" where
  "ui_frames (Stop_unlock fr) = fr"
| "ui_frames (Stop_empty fr) = fr"
| "ui_frames (Stop_mkdir fr) = fr"
| "ui_frames (Stop_saving fr out) = fr"
| "ui_frames (Stop_spawn fr out) = fr"
| "ui_frames _ = []"

definition held :: "sys \<Rightarrow> QImage list" where
  "held s = concat (map frames (workers s)) @ ui_frames (ui_pc s) @ saveBuffer s"

text \<open>The frame an action appends (line 1056), if it does.\<close>

fun pushed :: "action \<Rightarrow> sys \<Rightarrow> QImage list" where
  "pushed AcqStep s = (case acq_pc s of A_push img \<Rightarrow> [img] | _ \<Rightarrow> [])"
| "pushed _ s = []"

text \<open>
  The two statements that let frames go: \<^verbatim>\<open>saveBuffer->clear()\<close> in \<^verbatim>\<open>startSaving\<close>
  (line 938) and the end of a save thread, which releases its sequence.
\<close>

fun discards :: "action \<Rightarrow> sys \<Rightarrow> bool" where
  "discards (UiStep e) s = (ui_pc s = Start_clear)"
| "discards (WorkerStep k ok) s = (k < length (workers s) \<and> wpc (workers s ! k) = W_clear)"
| "discards _ s = False"

fun pushes :: "action list \<Rightarrow> sys \<Rightarrow> QImage list" where
  "pushes [] s = []"
| "pushes (a # as) s = pushed a s @ pushes as (step a s)"

fun no_discard :: "action list \<Rightarrow> sys \<Rightarrow> bool" where
  "no_discard [] s = True"
| "no_discard (a # as) s = (\<not> discards a s \<and> no_discard as (step a s))"

text \<open>
  The frames these two statements let go: the content of the buffer at \<^verbatim>\<open>clear()\<close>, the
  sequence of the save thread at its end; along a schedule, one after the other.
\<close>

fun dropped :: "action \<Rightarrow> sys \<Rightarrow> QImage list" where
  "dropped (UiStep e) s = (if ui_pc s = Start_clear then saveBuffer s else [])"
| "dropped (WorkerStep k ok) s =
     (if k < length (workers s) \<and> wpc (workers s ! k) = W_clear then frames (workers s ! k)
      else [])"
| "dropped _ s = []"

fun drops :: "action list \<Rightarrow> sys \<Rightarrow> QImage list" where
  "drops [] s = []"
| "drops (a # as) s = dropped a s @ drops as (step a s)"

text \<open>
  What the loop of lines 1003 to 1014 writes and posts, from index \<open>i\<close> on, given the
  outcome of each \<^verbatim>\<open>im.save\<close>.
\<close>

fun frame_writes ::
  "string \<Rightarrow> QImage list \<Rightarrow> nat \<Rightarrow> bool list \<Rightarrow> (string \<times> disk_file) list" where
  "frame_writes out fr i [] = []"
| "frame_writes out fr i (ok # oks) =
     (if ok then [(filePath out (frame_file_name (name_width (length fr)) i), TiffFile (fr ! i))]
      else []) @ frame_writes out fr (Suc i) oks"

fun progress_calls :: "nat \<Rightarrow> nat \<Rightarrow> nat \<Rightarrow> ui_call list" where
  "progress_calls n i 0 = []"
| "progress_calls n i (Suc k) =
     (if i mod 100 = 0 \<or> i + 1 = n then [SetProgress (cast_int (i + 1))] else [])
     @ progress_calls n (Suc i) k"

text \<open>
  The reading the specification describes: the image files of a directory, taken in the
  numeric order of their names.
\<close>

definition digit_val :: "char \<Rightarrow> nat" where
  "digit_val c = of_char c - 48"

definition nat_of_digits :: "string \<Rightarrow> nat" where
  "nat_of_digits cs = foldl (\<lambda>a c. 10 * a + digit_val c) 0 cs"

definition file_index :: "string \<Rightarrow> nat" where
  "file_index name = nat_of_digits (takeWhile (\<lambda>c. c \<noteq> CHR ''.'') name)"

fun tiff_entries :: "string \<Rightarrow> (string \<times> disk_file) list \<Rightarrow> (string \<times> QImage) list" where
  "tiff_entries d [] = []"
| "tiff_entries d ((p, TiffFile im) # fs) =
     (if take (length d + 1) p = d @ ''/'' then [(drop (length d + 1) p, im)] else [])
     @ tiff_entries d fs"
| "tiff_entries d ((p, TextFile t) # fs) = tiff_entries d fs"

definition read_sequence :: "string \<Rightarrow> (string \<times> disk_file) list \<Rightarrow> QImage list" where
  "read_sequence d fs = map snd (sort_key (\<lambda>x. file_index (fst x)) (tiff_entries d fs))"

subsection \<open>A sample session\<close>

text \<open>Concrete inputs on which the theorems below are exercised.\<close>

definition t0 :: QDateTime where
  "t0 = \<lparr>year = 2024, month = 3, day = 5, hour = 14, minute = 7, second = 9, msec = 42\<rparr>"

definition env0 :: ui_env where
  "env0 = \<lparr>now = t0, savePathText = ''C:/data'', applicationDirPath = ''C:/app'',
     exposureValue = 10, save_ok = True\<rparr>"

text \<open>The start button is clicked and \<^verbatim>\<open>startSaving\<close> runs to its end.\<close>

definition sch_start :: "action list" where
  "sch_start = [ClickStart, UiStep env0, UiStep env0, UiStep env0, UiStep env0, UiStep env0,
     UiStep env0, UiStep env0]"

text \<open>The grabber hands one frame to the record hook, which runs to its end.\<close>

definition sch_frame :: "QImage \<Rightarrow> action list" where
  "sch_frame img = [Hook img, AcqStep, AcqStep, AcqStep, AcqStep]"

text \<open>The stop button is clicked and \<^verbatim>\<open>stopSaving\<close> runs to its end.\<close>

definition sch_stop :: "action list" where
  "sch_stop = [ClickStop, UiStep env0, UiStep env0, UiStep env0, UiStep env0, UiStep env0,
     UiStep env0, UiStep env0, UiStep env0, UiStep env0]"

text \<open>A session with one frame, the stop button clicked, \<^verbatim>\<open>stopSaving\<close> about to swap.\<close>

definition sch_to_swap :: "action list" where
  "sch_to_swap =
     sch_start @ sch_frame (Image [1]) @ [ClickStop, UiStep env0, UiStep env0, UiStep env0]"

text \<open>A session of one frame, stopped: the save thread has just been started.\<close>

definition sch_saved :: "action list" where
  "sch_saved = sch_start @ sch_frame (Image [1]) @ sch_stop"

text \<open>
  The save thread then writes its frame and the metadata and posts its calls, and the GUI
  thread runs them (the dialog is hidden); the save thread has not yet cleared
  \<^verbatim>\<open>saving\<close>.
\<close>

definition sch_hidden :: "action list" where
  "sch_hidden = sch_saved @
     [WorkerStep 0 True, WorkerStep 0 True, WorkerStep 0 True, WorkerStep 0 True,
      UiDispatch, UiDispatch, UiDispatch]"

text \<open>The same, followed by the click and the first statement of \<^verbatim>\<open>startSaving\<close>.\<close>

definition sch_restart :: "action list" where
  "sch_restart = sch_saved @
     [WorkerStep 0 True, WorkerStep 0 True, WorkerStep 0 True, WorkerStep 0 True,
      UiDispatch, UiDispatch, UiDispatch, ClickStart, UiStep env0]"


text \<open>
  \<^verbatim>\<open>startSaving\<close> has set the flag and cleared the buffer; the hook then records a frame
  before \<^verbatim>\<open>startSaving\<close> resets the counter.
\<close>

definition sch_race :: "action list" where
  "sch_race = [ClickStart, UiStep env0, UiStep env0, UiStep env0, UiStep env0, UiStep env0]
     @ sch_frame (Image [1]) @ [UiStep env0, UiStep env0]"

text \<open>
  During a session: a frame is recorded, the hook passes its flag test with another one,
  \<^verbatim>\<open>stopSaving\<close> runs to its end, and only then the hook appends.
\<close>

definition sch_swap_race :: "action list" where
  "sch_swap_race = sch_frame (Image [2]) @ [Hook (Image [3])] @ sch_stop @
     [AcqStep, AcqStep, AcqStep, AcqStep]"

text \<open>
  The same with an empty session, followed by a click on the start button and
  \<^verbatim>\<open>startSaving\<close> up to its \<^verbatim>\<open>clear()\<close>.
\<close>

definition sch_swap_restart :: "action list" where
  "sch_swap_restart = [Hook (Image [3])] @ sch_stop @
     [AcqStep, AcqStep, AcqStep, AcqStep, ClickStart, UiStep env0, UiStep env0, UiStep env0]"

text \<open>
  A session is started; the hook passes its flag test with a frame; \<^verbatim>\<open>stopSaving\<close> runs
  to its end on the empty buffer; the hook appends; the start button is clicked at once
  and \<^verbatim>\<open>startSaving\<close> runs to its end.
\<close>

definition sch_lost :: "action list" where
  "sch_lost = sch_start @ [Hook (Image [3])] @ sch_stop @ [AcqStep, AcqStep, AcqStep, AcqStep]
     @ sch_start"

text \<open>
  The same, the hook appending only after \<^verbatim>\<open>startSaving\<close> has set \<^verbatim>\<open>recording\<close> again
  and before it clears the buffer.
\<close>

definition sch_lost_open :: "action list" where
  "sch_lost_open = sch_start @ [Hook (Image [3])] @ sch_stop
     @ [ClickStart, UiStep env0, UiStep env0]
     @ [AcqStep, AcqStep, AcqStep, AcqStep]
     @ [UiStep env0, UiStep env0, UiStep env0, UiStep env0, UiStep env0]"

text \<open>The device reports a frame, a session is started and two frames are recorded.\<close>

definition meta0 :: FrameMeta where
  "meta0 = \<lparr>width = 2304, height = 1152, binning = 2, bits = 16, frameIndex = 7, delivered = 7,
     dropped = 0, internalFps = 100, readoutSpeed = 3\<rparr>"

definition meta1 :: FrameMeta where
  "meta1 = \<lparr>width = 512, height = 512, binning = 4, bits = 8, frameIndex = 9, delivered = 9,
     dropped = 0, internalFps = 400, readoutSpeed = 1\<rparr>"

definition sch_two :: "action list" where
  "sch_two =
     FrameReady (Image [9]) meta0 # sch_start @ sch_frame (Image [1]) @ sch_frame (Image [2])"

text \<open>A session in which \<open>2^31 + 1\<close> frames have been recorded.\<close>

definition long_session :: sys where
  "long_session = init\<lparr>recording := True, saveBuffer := replicate 2147483649 (Image []),
     saveStartBtn := False, saveStopBtn := True\<rparr>"

section \<open>Properties\<close>

subsection \<open>Invariants of every schedule\<close>

lemma flag_inv_init: "flag_inv init"
  by (simp add: flag_inv_def init_def)

lemma mutex_inv_init: "mutex_inv init"
  by (simp add: mutex_inv_def init_def)

lemma flag_inv_ui_step: "flag_inv s \<Longrightarrow> flag_inv (ui_step e s)"
  by (cases "ui_pc s") (auto simp: flag_inv_def ui_step_def)

lemma flag_inv_acq_step: "flag_inv s \<Longrightarrow> flag_inv (acq_step s)"
  by (cases "acq_pc s") (simp_all add: flag_inv_def acq_step_def)

lemma flag_inv_worker_step:
  assumes "flag_inv s"
  shows "flag_inv (worker_step k ok s)"
proof (cases "k < length (workers s)")
  case False
  then show ?thesis using assms by (simp add: worker_step_def)
next
  case True
  with assms have one: "length (workers s) = 1" and k: "k = 0" and sv: "saving s"
    and nostop: "\<not> in_stop (ui_pc s)"
    by (auto simp: flag_inv_def)
  then obtain w where w: "workers s = [w]" by (cases "workers s") auto
  show ?thesis
    using assms w k sv nostop
    by (cases "wpc w"; cases "ui_pc s"; simp add: flag_inv_def worker_step_def)
qed

lemma flag_inv_dispatch: "flag_inv s \<Longrightarrow> flag_inv (ui_dispatch s)"
  by (simp add: flag_inv_def ui_dispatch_def split: list.splits ui_call.splits)

lemma flag_inv_step: "flag_inv s \<Longrightarrow> flag_inv (step a s)"
proof (cases a)
  case (UiStep e)
  then show "flag_inv s \<Longrightarrow> ?thesis" by (simp add: flag_inv_ui_step)
next
  case (WorkerStep k ok)
  then show "flag_inv s \<Longrightarrow> ?thesis" by (simp add: flag_inv_worker_step)
next
  case AcqStep
  then show "flag_inv s \<Longrightarrow> ?thesis" by (simp add: flag_inv_acq_step)
next
  case UiDispatch
  then show "flag_inv s \<Longrightarrow> ?thesis" by (simp add: flag_inv_dispatch)
next
  case ClickStart
  then show "flag_inv s \<Longrightarrow> ?thesis" by (auto simp: flag_inv_def)
next
  case ClickStop
  then show "flag_inv s \<Longrightarrow> ?thesis" by (auto simp: flag_inv_def)
next
  case (ClickCapture e)
  then show "flag_inv s \<Longrightarrow> ?thesis" by (auto simp: flag_inv_def captureFrame_def)
next
  case (FrameReady img m)
  then show "flag_inv s \<Longrightarrow> ?thesis" by (auto simp: flag_inv_def frameReady_def)
next
  case (Hook img)
  then show "flag_inv s \<Longrightarrow> ?thesis" by (auto simp: flag_inv_def recordHook_def)
qed

lemma mutex_inv_ui_step: "mutex_inv s \<Longrightarrow> mutex_inv (ui_step e s)"
  by (cases "ui_pc s"; cases "saveMutex s"; simp add: mutex_inv_def ui_step_def)

lemma mutex_inv_acq_step: "mutex_inv s \<Longrightarrow> mutex_inv (acq_step s)"
  by (cases "acq_pc s"; cases "saveMutex s"; simp add: mutex_inv_def acq_step_def)

lemma mutex_inv_worker_step: "mutex_inv s \<Longrightarrow> mutex_inv (worker_step k ok s)"
  by (cases "wpc (workers s ! k)") (simp_all add: mutex_inv_def worker_step_def Let_def)

lemma mutex_inv_dispatch: "mutex_inv s \<Longrightarrow> mutex_inv (ui_dispatch s)"
  by (simp add: mutex_inv_def ui_dispatch_def split: list.splits ui_call.splits)

lemma mutex_inv_step: "mutex_inv s \<Longrightarrow> mutex_inv (step a s)"
proof (cases a)
  case (UiStep e)
  then show "mutex_inv s \<Longrightarrow> ?thesis" by (simp add: mutex_inv_ui_step)
next
  case (WorkerStep k ok)
  then show "mutex_inv s \<Longrightarrow> ?thesis" by (simp add: mutex_inv_worker_step)
next
  case AcqStep
  then show "mutex_inv s \<Longrightarrow> ?thesis" by (simp add: mutex_inv_acq_step)
next
  case UiDispatch
  then show "mutex_inv s \<Longrightarrow> ?thesis" by (simp add: mutex_inv_dispatch)
next
  case ClickStart
  then show "mutex_inv s \<Longrightarrow> ?thesis" by (simp add: mutex_inv_def)
next
  case ClickStop
  then show "mutex_inv s \<Longrightarrow> ?thesis" by (simp add: mutex_inv_def)
next
  case (ClickCapture e)
  then show "mutex_inv s \<Longrightarrow> ?thesis" by (simp add: mutex_inv_def captureFrame_def)
next
  case (FrameReady img m)
  then show "mutex_inv s \<Longrightarrow> ?thesis" by (simp add: mutex_inv_def frameReady_def)
next
  case (Hook img)
  then show "mutex_inv s \<Longrightarrow> ?thesis" by (simp add: mutex_inv_def recordHook_def)
qed

lemma flag_inv_run: "flag_inv s \<Longrightarrow> flag_inv (run sch s)"
  by (induction sch arbitrary: s) (simp_all add: flag_inv_step)

lemma mutex_inv_run: "mutex_inv s \<Longrightarrow> mutex_inv (run sch s)"
  by (induction sch arbitrary: s) (simp_all add: mutex_inv_step)

lemma flag_inv_reach: "flag_inv (run sch init)"
  by (rule flag_inv_run [OF flag_inv_init])

lemma mutex_inv_reach: "mutex_inv (run sch init)"
  by (rule mutex_inv_run [OF mutex_inv_init])

lemma run_append: "run (as @ bs) s = run bs (run as s)"
  by (induction as arbitrary: s) simp_all


lemmas sample_defs = sch_start_def sch_frame_def sch_stop_def env0_def t0_def init_def

lemmas step_defs = ui_step_def acq_step_def recordHook_def

lemmas run_defs = sample_defs step_defs worker_step_def ui_dispatch_def

lemmas text_defs = filePath_def baseDir_def fmt_dir_def fmt_capture_def fmt_start_def zpad_def
  string_of_nat.simps digit_char_def

subsection \<open>The sample session, evaluated\<close>

lemma sch_two_state:
  "recording (run sch_two init)" "saveMutex (run sch_two init) = None"
  "workers (run sch_two init) = []" "saveBuffer (run sch_two init) = [Image [1], Image [2]]"
  "disk (run sch_two init) = []" "lastMeta (run sch_two init) = meta0"
  "recordStartTime (run sch_two init) = Some t0" "ui_queue (run sch_two init) = []"
  by (simp_all add: sch_two_def run_defs frameReady_def)

lemma replicate_numeral: "replicate (numeral k) x = x # replicate (pred_numeral k) x"
  by (simp add: numeral_eq_Suc)

lemma sample_texts:
  "filePath (baseDir env0) (fmt_dir (now env0)) = ''C:/data/20240305_140709''"
  "fmt_start (Some t0) = ''2024-03-05 14:07:09.042''"
  "zpad 6 0 = ''000000''" "zpad 6 (Suc 0) = ''000001''"
  by (simp_all add: env0_def t0_def text_defs replicate_numeral)

lemma ceil_log10_2: "max 6 (ceil_log10 2) = 6"
  by (simp add: ceil_log10.simps)

subsection \<open>The handlers, run alone\<close>

lemma ui_run_numeral:
  "ui_run (numeral k) e s =
     (if ui_pc s = Idle then s else ui_run (pred_numeral k) e (ui_step e s))"
  by (simp add: numeral_eq_Suc)

lemma stopSaving_idle: "\<not> recording s \<Longrightarrow> stopSaving e s = s\<lparr>ui_pc := Idle\<rparr>"
  by (simp add: stopSaving_def ui_run_numeral ui_step_def)

lemma startSaving_rejected:
  "saving s \<Longrightarrow>
     startSaving e s = s\<lparr>statusLabel := ''Already saving to disk'', ui_pc := Idle\<rparr>"
  by (simp add: startSaving_def ui_run_numeral ui_step_def)

lemma startSaving_started:
  "\<not> saving s \<Longrightarrow> saveMutex s = None \<Longrightarrow> startSaving e s =
     s\<lparr>recording := True, saveBuffer := [], recordedFrames := 0,
       recordStartTime := Some (now e), saveStartBtn := False, saveStopBtn := True,
       statusLabel := ''Recording...'', ui_pc := Idle\<rparr>"
  by (simp add: startSaving_def ui_run_numeral ui_step_def)

lemma stopSaving_empty:
  "recording s \<Longrightarrow> saveMutex s = None \<Longrightarrow> saveBuffer s = [] \<Longrightarrow> stopSaving e s =
     s\<lparr>recording := False, saveStartBtn := True, saveStopBtn := False,
       statusLabel := ''No frames to save'', ui_pc := Idle\<rparr>"
  by (simp add: stopSaving_def ui_run_numeral ui_step_def)

lemma stopSaving_frames:
  "recording s \<Longrightarrow> saveMutex s = None \<Longrightarrow> saveBuffer s \<noteq> [] \<Longrightarrow> stopSaving e s =
     s\<lparr>recording := False, saveBuffer := [], saveStartBtn := True, saveStopBtn := False,
       dirs := dirs s @ [baseDir e, filePath (baseDir e) (fmt_dir (now e))],
       saving := True, statusLabel := ''Saving to disk...'', savingProgress := 0,
       savingDialog := True,
       workers := workers s @
         [\<lparr>frames = saveBuffer s, outDir = filePath (baseDir e) (fmt_dir (now e)),
           metaCopy = lastMeta s, expMsCopy = exposureValue e,
           recordStartStr = fmt_start (recordStartTime s), w_i = 0, wpc = W_loop\<rparr>],
       ui_pc := Idle\<rparr>"
  by (simp add: stopSaving_def ui_run_numeral ui_step_def)

lemma stopSaving_returns:
  "saveMutex s = None \<Longrightarrow> ui_pc (stopSaving e s) = Idle \<and> \<not> recording (stopSaving e s)"
  by (cases "recording s"; cases "saveBuffer s = []")
     (simp_all add: stopSaving_idle stopSaving_empty stopSaving_frames)

text \<open>Without a click on the two buttons the GUI thread stays idle and the flag stays off.\<close>

lemma idle_closed_step:
  "a \<noteq> ClickStart \<Longrightarrow> a \<noteq> ClickStop \<Longrightarrow> ui_pc s = Idle \<Longrightarrow> \<not> recording s \<Longrightarrow>
     ui_pc (step a s) = Idle \<and> \<not> recording (step a s)"
proof (cases a)
  case (WorkerStep k ok)
  then show "ui_pc s = Idle \<Longrightarrow> \<not> recording s \<Longrightarrow> ?thesis"
    by (cases "wpc (workers s ! k)") (simp_all add: worker_step_def Let_def)
next
  case AcqStep
  then show "ui_pc s = Idle \<Longrightarrow> \<not> recording s \<Longrightarrow> ?thesis"
    by (cases "acq_pc s") (simp_all add: acq_step_def)
next
  case UiDispatch
  then show "ui_pc s = Idle \<Longrightarrow> \<not> recording s \<Longrightarrow> ?thesis"
    by (simp add: ui_dispatch_def split: list.splits ui_call.splits)
qed (simp_all add: ui_step_def captureFrame_def frameReady_def recordHook_def)

lemma idle_closed_run:
  "ClickStart \<notin> set sch \<Longrightarrow> ClickStop \<notin> set sch \<Longrightarrow> ui_pc s = Idle \<Longrightarrow> \<not> recording s \<Longrightarrow>
     ui_pc (run sch s) = Idle \<and> \<not> recording (run sch s)"
proof (induction sch arbitrary: s)
  case Nil
  then show ?case by simp
next
  case (Cons a sch)
  from Cons.prems have "ui_pc (step a s) = Idle \<and> \<not> recording (step a s)"
    by (intro idle_closed_step) auto
  with Cons show ?case by simp
qed

subsection \<open>Stopping without an open session\<close>

text \<open>
  Claim C4. \<^verbatim>\<open>stopSaving\<close> called while no session is open (never started, or already
  stopped) returns at its first statement and changes nothing: no swap, no directory, no
  save thread. After a call of \<^verbatim>\<open>stopSaving\<close> that returned, whatever the other threads
  and the GUI do in between short of a click on the start or stop button, a second call
  is such a call.
\<close>

theorem stopSaving_without_session:
  "(\<not> recording s \<longrightarrow> stopSaving e s = s\<lparr>ui_pc := Idle\<rparr>) \<and>
   (saveMutex s = None \<and> ClickStart \<notin> set sch \<and> ClickStop \<notin> set sch \<longrightarrow>
      stopSaving e2 (run sch (stopSaving e1 s)) = run sch (stopSaving e1 s))"
proof (intro conjI impI)
  assume "\<not> recording s"
  then show "stopSaving e s = s\<lparr>ui_pc := Idle\<rparr>" by (rule stopSaving_idle)
next
  assume a: "saveMutex s = None \<and> ClickStart \<notin> set sch \<and> ClickStop \<notin> set sch"
  then have "ui_pc (stopSaving e1 s) = Idle \<and> \<not> recording (stopSaving e1 s)"
    by (simp add: stopSaving_returns)
  with a have "ui_pc (run sch (stopSaving e1 s)) = Idle
      \<and> \<not> recording (run sch (stopSaving e1 s))"
    by (intro idle_closed_run) auto
  then show "stopSaving e2 (run sch (stopSaving e1 s)) = run sch (stopSaving e1 s)"
    by (simp add: stopSaving_idle)
qed

theorem stopSaving_without_session_witness:
  "\<not> recording init \<and> stopSaving env0 init = init \<and>
   saveMutex (run (sch_start @ sch_frame (Image [1])) init) = None \<and>
   stopSaving env0 (run [Hook (Image [2]), WorkerStep 0 True]
       (stopSaving env0 (run (sch_start @ sch_frame (Image [1])) init)))
     = run [Hook (Image [2]), WorkerStep 0 True]
       (stopSaving env0 (run (sch_start @ sch_frame (Image [1])) init))"
  using stopSaving_without_session [of init env0 "[]" env0 env0]
    stopSaving_without_session [of "run (sch_start @ sch_frame (Image [1])) init" env0
      "[Hook (Image [2]), WorkerStep 0 True]" env0 env0]
  by (simp add: sample_defs ui_step_def acq_step_def recordHook_def)


subsection \<open>Starting a session\<close>

text \<open>
  Claim C2, as the specification states it, fails in its second half: with no session
  open, \<^verbatim>\<open>startSaving\<close> does not always open one, for it first tests \<^verbatim>\<open>saving\<close>
  (line 931). Here a session of one frame has been stopped, the save thread has written
  its files and the dialog is hidden, but the thread has not yet cleared \<^verbatim>\<open>saving\<close>. No
  session is open and the click on the start button is accepted; \<^verbatim>\<open>startSaving\<close> then
  only sets the status text: the flag stays off and the start time is the old one.
\<close>

theorem start_while_saving_counterexample:
  "\<not> recording (run sch_hidden init) \<and> saving (run sch_hidden init) \<and>
   step ClickStart (run sch_hidden init) = (run sch_hidden init)\<lparr>ui_pc := Start_check\<rparr> \<and>
   startSaving (env0\<lparr>now := t0\<lparr>minute := 8\<rparr>\<rparr>) (run sch_hidden init)
     = (run sch_hidden init)\<lparr>statusLabel := ''Already saving to disk''\<rparr> \<and>
   \<not> recording (startSaving (env0\<lparr>now := t0\<lparr>minute := 8\<rparr>\<rparr>) (run sch_hidden init)) \<and>
   recordStartTime (startSaving (env0\<lparr>now := t0\<lparr>minute := 8\<rparr>\<rparr>) (run sch_hidden init))
     = Some t0"
  by (simp add: sch_hidden_def sch_saved_def run_defs startSaving_def ui_run_numeral)

lemma start_click_ignored:
  "recording (run sch init) \<Longrightarrow> step ClickStart (run sch init) = run sch init"
  using flag_inv_reach [of sch] by (auto simp: flag_inv_def)

lemma start_entered_closed:
  "ui_pc (run sch init) = Start_check \<Longrightarrow> \<not> recording (run sch init)"
  using flag_inv_reach [of sch] by (simp add: flag_inv_def)

text \<open>
  Claim C2, amended. While a recording session is open a start is refused: in every
  state a schedule reaches from the initial one with \<^verbatim>\<open>recording\<close> set, a click on the
  start button changes nothing (the button is disabled), and \<^verbatim>\<open>startSaving\<close> is never at
  its first statement with the flag set. With no session open, \<^verbatim>\<open>startSaving\<close> is
  rejected, with the status text "Already saving to disk" and no other change, when a
  save is in progress; otherwise it sets the recording flag that the hook reads, clears
  the buffer, resets the counter to zero and records the start time (and swaps the two
  buttons). The two equations on \<^verbatim>\<open>startSaving\<close> hold of every state.
\<close>

theorem startSaving_behaviour:
  "(recording (run sch init) \<longrightarrow> step ClickStart (run sch init) = run sch init) \<and>
   (ui_pc (run sch init) = Start_check \<longrightarrow> \<not> recording (run sch init)) \<and>
   (saving s \<longrightarrow>
      startSaving e s = s\<lparr>statusLabel := ''Already saving to disk'', ui_pc := Idle\<rparr>) \<and>
   (\<not> saving s \<and> saveMutex s = None \<longrightarrow>
      startSaving e s =
        s\<lparr>recording := True, saveBuffer := [], recordedFrames := 0,
          recordStartTime := Some (now e), saveStartBtn := False, saveStopBtn := True,
          statusLabel := ''Recording...'', ui_pc := Idle\<rparr>)"
proof (intro conjI impI)
  assume "recording (run sch init)"
  then show "step ClickStart (run sch init) = run sch init"
    by (rule start_click_ignored)
next
  assume "ui_pc (run sch init) = Start_check"
  then show "\<not> recording (run sch init)"
    by (rule start_entered_closed)
next
  assume "saving s"
  then show "startSaving e s = s\<lparr>statusLabel := ''Already saving to disk'', ui_pc := Idle\<rparr>"
    by (rule startSaving_rejected)
next
  assume "\<not> saving s \<and> saveMutex s = None"
  then show "startSaving e s =
        s\<lparr>recording := True, saveBuffer := [], recordedFrames := 0,
          recordStartTime := Some (now e), saveStartBtn := False, saveStopBtn := True,
          statusLabel := ''Recording...'', ui_pc := Idle\<rparr>"
    by (simp add: startSaving_started)
qed

theorem startSaving_behaviour_witness:
  "recording (run (sch_start @ sch_frame (Image [1])) init) \<and>
   step ClickStart (run (sch_start @ sch_frame (Image [1])) init)
     = run (sch_start @ sch_frame (Image [1])) init \<and>
   ui_pc (run [ClickStart] init) = Start_check \<and> \<not> recording (run [ClickStart] init) \<and>
   \<not> recording (run sch_hidden init) \<and> saving (run sch_hidden init) \<and>
   statusLabel (startSaving env0 (run sch_hidden init)) = ''Already saving to disk'' \<and>
   \<not> recording (startSaving env0 (run sch_hidden init)) \<and>
   \<not> recording init \<and> \<not> saving init \<and> saveMutex init = None \<and>
   recording (startSaving env0 init) \<and> recordStartTime (startSaving env0 init) = Some t0 \<and>
   saveBuffer (startSaving env0 init) = [] \<and> recordedFrames (startSaving env0 init) = 0"
  using
    startSaving_behaviour [of "sch_start @ sch_frame (Image [1])" "run sch_hidden init" env0]
    startSaving_behaviour [of "[ClickStart]" init env0]
  by (simp add: sch_hidden_def sch_saved_def run_defs)

subsection \<open>Stopping a session\<close>

lemma swap_under_lock:
  "ui_pc (run sch init) = Stop_swap \<Longrightarrow>
     \<not> recording (run sch init) \<and> saveMutex (run sch init) = Some UI"
  using flag_inv_reach [of sch] mutex_inv_reach [of sch]
  by (simp add: flag_inv_def mutex_inv_def)

text \<open>
  Claim C5. With a session open, \<^verbatim>\<open>stopSaving\<close> clears the recording flag and empties
  the buffer by a swap. If frames were buffered, the whole sequence, in order, goes to
  the new save thread together with the copies of \<^verbatim>\<open>lastMeta\<close>, of the exposure and of
  the start time taken in the same call, the directory is requested and \<^verbatim>\<open>saving\<close> is
  set. If none was, the handler returns with the text "No frames to save": no directory,
  no save thread, \<^verbatim>\<open>saving\<close> untouched. In every state a schedule reaches, the swap
  statement runs with the flag already off and the mutex held by the GUI thread, and
  moves the buffer as a whole.
\<close>

theorem stopSaving_hands_over:
  "(recording s \<and> saveMutex s = None \<and> saveBuffer s \<noteq> [] \<longrightarrow>
      stopSaving e s =
        s\<lparr>recording := False, saveBuffer := [], saveStartBtn := True, saveStopBtn := False,
          dirs := dirs s @ [baseDir e, filePath (baseDir e) (fmt_dir (now e))],
          saving := True, statusLabel := ''Saving to disk...'', savingProgress := 0,
          savingDialog := True,
          workers := workers s @
            [\<lparr>frames = saveBuffer s, outDir = filePath (baseDir e) (fmt_dir (now e)),
              metaCopy = lastMeta s, expMsCopy = exposureValue e,
              recordStartStr = fmt_start (recordStartTime s), w_i = 0, wpc = W_loop\<rparr>],
          ui_pc := Idle\<rparr>) \<and>
   (recording s \<and> saveMutex s = None \<and> saveBuffer s = [] \<longrightarrow>
      stopSaving e s =
        s\<lparr>recording := False, saveStartBtn := True, saveStopBtn := False,
          statusLabel := ''No frames to save'', ui_pc := Idle\<rparr>) \<and>
   (ui_pc (run sch init) = Stop_swap \<longrightarrow>
      \<not> recording (run sch init) \<and> saveMutex (run sch init) = Some UI \<and>
      ui_step e (run sch init) =
        (run sch init)\<lparr>saveBuffer := [], ui_pc := Stop_unlock (saveBuffer (run sch init))\<rparr>)"
proof (intro conjI impI)
  assume "recording s \<and> saveMutex s = None \<and> saveBuffer s \<noteq> []"
  then show "stopSaving e s =
        s\<lparr>recording := False, saveBuffer := [], saveStartBtn := True, saveStopBtn := False,
          dirs := dirs s @ [baseDir e, filePath (baseDir e) (fmt_dir (now e))],
          saving := True, statusLabel := ''Saving to disk...'', savingProgress := 0,
          savingDialog := True,
          workers := workers s @
            [\<lparr>frames = saveBuffer s, outDir = filePath (baseDir e) (fmt_dir (now e)),
              metaCopy = lastMeta s, expMsCopy = exposureValue e,
              recordStartStr = fmt_start (recordStartTime s), w_i = 0, wpc = W_loop\<rparr>],
          ui_pc := Idle\<rparr>"
    by (simp add: stopSaving_frames)
next
  assume "recording s \<and> saveMutex s = None \<and> saveBuffer s = []"
  then show "stopSaving e s =
        s\<lparr>recording := False, saveStartBtn := True, saveStopBtn := False,
          statusLabel := ''No frames to save'', ui_pc := Idle\<rparr>"
    by (simp add: stopSaving_empty)
next
  assume "ui_pc (run sch init) = Stop_swap"
  then show "\<not> recording (run sch init)" by (simp add: swap_under_lock)
next
  assume "ui_pc (run sch init) = Stop_swap"
  then show "saveMutex (run sch init) = Some UI" by (simp add: swap_under_lock)
next
  assume "ui_pc (run sch init) = Stop_swap"
  then show "ui_step e (run sch init) =
        (run sch init)\<lparr>saveBuffer := [], ui_pc := Stop_unlock (saveBuffer (run sch init))\<rparr>"
    by (simp add: ui_step_def)
qed

theorem stopSaving_hands_over_witness:
  "recording (run (sch_start @ sch_frame (Image [1])) init) \<and>
   saveMutex (run (sch_start @ sch_frame (Image [1])) init) = None \<and>
   saveBuffer (run (sch_start @ sch_frame (Image [1])) init) = [Image [1]] \<and>
   workers (stopSaving env0 (run (sch_start @ sch_frame (Image [1])) init)) =
     [\<lparr>frames = [Image [1]], outDir = ''C:/data/20240305_140709'',
       metaCopy = lastMeta init, expMsCopy = 10,
       recordStartStr = ''2024-03-05 14:07:09.042'', w_i = 0, wpc = W_loop\<rparr>] \<and>
   saveBuffer (stopSaving env0 (run (sch_start @ sch_frame (Image [1])) init)) = [] \<and>
   recording (run sch_start init) \<and> saveMutex (run sch_start init) = None \<and>
   saveBuffer (run sch_start init) = [] \<and>
   workers (stopSaving env0 (run sch_start init)) = [] \<and>
   dirs (stopSaving env0 (run sch_start init)) = [] \<and>
   \<not> saving (stopSaving env0 (run sch_start init)) \<and>
   ui_pc (run sch_to_swap init) = Stop_swap \<and>
   saveMutex (run sch_to_swap init) = Some UI \<and>
   ui_pc (ui_step env0 (run sch_to_swap init)) = Stop_unlock [Image [1]]"
  using
    stopSaving_hands_over [of "run (sch_start @ sch_frame (Image [1])) init" env0 sch_to_swap]
    stopSaving_hands_over [of "run sch_start init" env0 sch_to_swap]
  apply (simp add: sample_defs step_defs sch_to_swap_def)
  apply (simp add: text_defs)
  done

subsection \<open>One save thread at a time\<close>

lemma one_worker: "length (workers (run sch init)) \<le> 1"
  using flag_inv_reach [of sch]
  by (cases "workers (run sch init) = []") (auto simp: flag_inv_def)

lemma worker_saving: "workers (run sch init) \<noteq> [] \<Longrightarrow> saving (run sch init)"
  using flag_inv_reach [of sch] by (simp add: flag_inv_def)

lemma saving_not_recording: "saving (run sch init) \<Longrightarrow> \<not> recording (run sch init)"
  using flag_inv_reach [of sch] by (simp add: flag_inv_def)

text \<open>
  Claim C3, as the specification states it, fails in its second half: the test on
  \<^verbatim>\<open>saving\<close> stands in \<^verbatim>\<open>startSaving\<close>, so no session starts while the save runs.
  Right after \<^verbatim>\<open>stopSaving\<close> has returned, \<^verbatim>\<open>startSaving\<close> leaves \<^verbatim>\<open>recording\<close> off and
  reports "Already saving to disk"; so does a click on the start button once the dialog
  is hidden and before the save thread has cleared the flag.
\<close>

theorem restart_while_saving_counterexample:
  "saving (run sch_saved init) \<and> length (workers (run sch_saved init)) = 1 \<and>
   \<not> recording (startSaving env0 (run sch_saved init)) \<and>
   statusLabel (startSaving env0 (run sch_saved init)) = ''Already saving to disk'' \<and>
   saving (run sch_restart init) \<and> length (workers (run sch_restart init)) = 1 \<and>
   \<not> savingDialog (run sch_restart init) \<and>
   ui_pc (run sch_restart init) = Idle \<and>
   \<not> recording (run sch_restart init) \<and>
   statusLabel (run sch_restart init) = ''Already saving to disk''"
  by (simp add: sch_saved_def sch_restart_def run_defs startSaving_def ui_run_numeral)

text \<open>
  Claim C3, amended. In every state a schedule reaches there is at most one save thread,
  and \<^verbatim>\<open>saving\<close> is set while it runs. While \<^verbatim>\<open>saving\<close> is set, \<^verbatim>\<open>startSaving\<close> is
  rejected with "Already saving to disk" and changes nothing else, so no new session
  opens before the save thread has cleared the flag; and \<^verbatim>\<open>stopSaving\<close> returns at its
  first statement, since no session is open then: no second save thread is started.
\<close>

theorem one_save_thread:
  "length (workers (run sch init)) \<le> 1 \<and>
   (workers (run sch init) \<noteq> [] \<longrightarrow> saving (run sch init)) \<and>
   (saving s \<longrightarrow>
      startSaving e s = s\<lparr>statusLabel := ''Already saving to disk'', ui_pc := Idle\<rparr>) \<and>
   (saving (run sch init) \<longrightarrow> stopSaving e (run sch init) = (run sch init)\<lparr>ui_pc := Idle\<rparr>)"
proof (intro conjI impI)
  show "length (workers (run sch init)) \<le> 1" by (rule one_worker)
next
  assume "workers (run sch init) \<noteq> []"
  then show "saving (run sch init)" by (rule worker_saving)
next
  assume "saving s"
  then show "startSaving e s = s\<lparr>statusLabel := ''Already saving to disk'', ui_pc := Idle\<rparr>"
    by (rule startSaving_rejected)
next
  assume "saving (run sch init)"
  then have "\<not> recording (run sch init)" by (rule saving_not_recording)
  then show "stopSaving e (run sch init) = (run sch init)\<lparr>ui_pc := Idle\<rparr>"
    by (rule stopSaving_idle)
qed

theorem one_save_thread_witness:
  "length (workers (run sch_saved init)) \<le> 1 \<and>
   workers (run sch_saved init) \<noteq> [] \<and> saving (run sch_saved init) \<and>
   startSaving env0 (run sch_saved init)
     = (run sch_saved init)\<lparr>statusLabel := ''Already saving to disk'', ui_pc := Idle\<rparr> \<and>
   stopSaving env0 (run sch_saved init) = run sch_saved init"
  using one_save_thread [of sch_saved "run sch_saved init" env0]
  by (simp add: sch_saved_def run_defs)

subsection \<open>The two flags\<close>




subsection \<open>The counter and the buffer\<close>

text \<open>
  Claim C10 does not hold of the code. \<^verbatim>\<open>startSaving\<close> sets \<^verbatim>\<open>recording\<close> (line 935)
  before it clears the buffer (938) and resets the counter (940, outside the mutex), so
  the hook can record a frame in between. Here the frame arrives after the clear and
  before the reset: the session ends up open, every thread at rest, with one frame in
  the buffer and the counter at zero.
\<close>

theorem counter_behind_buffer:
  "recording (run sch_race init) \<and> ui_pc (run sch_race init) = Idle \<and>
   acq_pc (run sch_race init) = A_idle \<and> saveMutex (run sch_race init) = None \<and>
   saveBuffer (run sch_race init) = [Image [1]] \<and> recordedFrames (run sch_race init) = 0"
  by (simp add: sch_race_def run_defs)

subsection \<open>Frames across the swap\<close>

lemma concat_frames_update:
  "k < length ws \<Longrightarrow> frames w' = frames (ws ! k) \<Longrightarrow>
     concat (map frames (ws[k := w'])) = concat (map frames ws)"
proof -
  assume k: "k < length ws" and f: "frames w' = frames (ws ! k)"
  have "(map frames ws)[k := map frames ws ! k] = map frames ws" by (rule list_update_id)
  with k f show ?thesis by (simp add: map_update)
qed

lemma held_ui_step: "ui_pc s \<noteq> Start_clear \<Longrightarrow> held (ui_step e s) = held s"
  by (cases "ui_pc s") (simp_all add: held_def ui_step_def)

lemma held_acq_step: "held (acq_step s) = held s @ pushed AcqStep s"
  by (cases "acq_pc s") (simp_all add: held_def acq_step_def)

lemma held_worker_step:
  "\<not> (k < length (workers s) \<and> wpc (workers s ! k) = W_clear) \<Longrightarrow>
     held (worker_step k ok s) = held s"
  by (cases "wpc (workers s ! k)")
     (simp_all add: held_def worker_step_def Let_def concat_frames_update)

lemma held_step: "\<not> discards a s \<Longrightarrow> held (step a s) = held s @ pushed a s"
proof (cases a)
  case (UiStep e)
  then show "\<not> discards a s \<Longrightarrow> ?thesis" by (simp add: held_ui_step)
next
  case AcqStep
  then show "\<not> discards a s \<Longrightarrow> ?thesis" by (simp add: held_acq_step)
next
  case (WorkerStep k ok)
  then show "\<not> discards a s \<Longrightarrow> ?thesis" using held_worker_step [of k s ok] by simp
next
  case UiDispatch
  then show "\<not> discards a s \<Longrightarrow> ?thesis"
    by (simp add: held_def ui_dispatch_def split: list.splits ui_call.splits)
qed (simp_all add: held_def captureFrame_def frameReady_def recordHook_def)

lemma held_run: "no_discard sch s \<Longrightarrow> held (run sch s) = held s @ pushes sch s"
  by (induction sch arbitrary: s) (simp_all add: held_step)

lemma mutual_exclusion:
  "\<not> (ui_holds (ui_pc (run sch init)) \<and> acq_holds (acq_pc (run sch init)))"
  using mutex_inv_reach [of sch] by (auto simp: mutex_inv_def)

lemma dropped_none: "\<not> discards a s \<Longrightarrow> dropped a s = []"
  by (cases a) auto

lemma mset_frames_remove:
  "k < length ws \<Longrightarrow>
     mset (concat (map frames (take k ws @ drop (Suc k) ws))) + mset (frames (ws ! k))
       = mset (concat (map frames ws))"
proof -
  assume k: "k < length ws"
  then have "ws = take k ws @ ws ! k # drop (Suc k) ws" by (rule id_take_nth_drop)
  then have "mset (concat (map frames ws))
      = mset (concat (map frames (take k ws @ ws ! k # drop (Suc k) ws)))" by simp
  also have "\<dots> = mset (concat (map frames (take k ws @ drop (Suc k) ws)))
      + mset (frames (ws ! k))" by simp
  finally show ?thesis by simp
qed

lemma held_step_account:
  "mset (held (step a s)) + mset (dropped a s) = mset (held s) + mset (pushed a s)"
proof (cases "discards a s")
  case False
  then show ?thesis by (simp add: held_step dropped_none)
next
  case True
  show ?thesis
  proof (cases a)
    case (UiStep e)
    with True show ?thesis by (simp add: held_def ui_step_def)
  next
    case (WorkerStep k ok)
    with True have k: "k < length (workers s)" and pc: "wpc (workers s ! k) = W_clear"
      by simp_all
    then have "held (worker_step k ok s)
        = concat (map frames (take k (workers s) @ drop (Suc k) (workers s)))
          @ ui_frames (ui_pc s) @ saveBuffer s"
      by (simp add: held_def worker_step_def Let_def)
    with WorkerStep k pc show ?thesis
      using mset_frames_remove [OF k] by (simp add: held_def ac_simps)
  qed (use True in simp_all)
qed

lemma held_run_account:
  "mset (held (run sch s)) + mset (drops sch s) = mset (held s) + mset (pushes sch s)"
proof (induction sch arbitrary: s)
  case Nil
  then show ?case by simp
next
  case (Cons a sch)
  have "mset (held (run (a # sch) s)) + mset (drops (a # sch) s)
      = (mset (held (run sch (step a s))) + mset (drops sch (step a s))) + mset (dropped a s)"
    by simp
  also have "\<dots> = (mset (held (step a s)) + mset (dropped a s)) + mset (pushes sch (step a s))"
    by (simp add: Cons.IH)
  also have "\<dots> = mset (held s) + mset (pushes (a # sch) s)"
    by (simp add: held_step_account)
  finally show ?case .
qed

lemma swap_step_keeps: "ui_pc s = Stop_swap \<Longrightarrow> held (step (UiStep e) s) = held s"
  by (simp add: held_def ui_step_def)

text \<open>
  Claim C7, as the specification states it, fails: a frame appended around a
  \<^verbatim>\<open>stopSaving\<close> that is followed at once by \<^verbatim>\<open>startSaving\<close> can end up in neither
  sequence. A session is open and the hook passes its flag test with a frame. The stop
  button is clicked; \<^verbatim>\<open>stopSaving\<close> swaps the empty buffer out and returns ("No frames
  to save", no save thread). The hook then appends its frame to the new buffer. The
  start button is clicked at once, and \<^verbatim>\<open>startSaving\<close> clears the buffer (line 938): the
  new session is open, and the frame is in no buffer, in no save thread and in no file.
  The same happens when the hook appends only after \<^verbatim>\<open>startSaving\<close> has set
  \<^verbatim>\<open>recording\<close> again, so that a session is open at the append itself.
\<close>

theorem frame_lost_by_clear_counterexample:
  "recording (run sch_start init) \<and>
   acq_pc (run (sch_start @ [Hook (Image [3])]) init) = A_lock (Image [3]) \<and>
   statusLabel (run (sch_start @ [Hook (Image [3])] @ sch_stop) init) = ''No frames to save'' \<and>
   saveBuffer (run (sch_start @ [Hook (Image [3])] @ sch_stop
       @ [AcqStep, AcqStep, AcqStep, AcqStep]) init) = [Image [3]] \<and>
   pushes sch_lost init = [Image [3]] \<and>
   recording (run sch_lost init) \<and> ui_pc (run sch_lost init) = Idle \<and>
   acq_pc (run sch_lost init) = A_idle \<and>
   saveBuffer (run sch_lost init) = [] \<and> workers (run sch_lost init) = [] \<and>
   disk (run sch_lost init) = [] \<and> held (run sch_lost init) = [] \<and>
   recording (run (sch_start @ [Hook (Image [3])] @ sch_stop
       @ [ClickStart, UiStep env0, UiStep env0]) init) \<and>
   pushes sch_lost_open init = [Image [3]] \<and>
   recording (run sch_lost_open init) \<and> ui_pc (run sch_lost_open init) = Idle \<and>
   acq_pc (run sch_lost_open init) = A_idle \<and>
   saveBuffer (run sch_lost_open init) = [] \<and> workers (run sch_lost_open init) = [] \<and>
   disk (run sch_lost_open init) = [] \<and> held (run sch_lost_open init) = []"
  by (simp add: sch_lost_def sch_lost_open_def run_defs held_def)

text \<open>
  Claim C7, amended. Take any state and any schedule, that is any interleaving of the
  hook with \<^verbatim>\<open>stopSaving\<close>, a following \<^verbatim>\<open>startSaving\<close> and everything else. The frames
  in memory are the sequences of the save threads, the sequence swapped out and not yet
  handed over, and the buffer. Counted with multiplicity, the frames in memory afterwards
  together with the frames let go by \<^verbatim>\<open>clear()\<close> in \<^verbatim>\<open>startSaving\<close> and by the end of a
  save thread are the frames in memory before together with the appended frames: every
  appended frame is in the old sequence or in the new buffer until one of these two
  statements lets it go. The swap lets none go and keeps the frames in memory as they
  are; \<^verbatim>\<open>clear()\<close> lets go the whole buffer, so a frame appended after the swap is
  discarded by the next \<^verbatim>\<open>startSaving\<close>. As long as neither statement runs, the frames in
  memory are those before followed by the appended ones, in order. And in no state a
  schedule reaches from the initial one is the GUI thread at the swap while the
  acquisition thread is at its append: both run under the mutex.
\<close>

theorem frames_accounted:
  "mset (held (run sch s)) + mset (drops sch s) = mset (held s) + mset (pushes sch s) \<and>
   (ui_pc s = Stop_swap \<longrightarrow> dropped (UiStep e) s = [] \<and> held (step (UiStep e) s) = held s) \<and>
   (ui_pc s = Start_clear \<longrightarrow>
      dropped (UiStep e) s = saveBuffer s \<and> saveBuffer (step (UiStep e) s) = []) \<and>
   (no_discard sch s \<longrightarrow> held (run sch s) = held s @ pushes sch s) \<and>
   \<not> (ui_pc (run sch2 init) = Stop_swap \<and> acq_pc (run sch2 init) = A_push img)"
proof (intro conjI impI)
  show "mset (held (run sch s)) + mset (drops sch s) = mset (held s) + mset (pushes sch s)"
    by (rule held_run_account)
next
  assume "ui_pc s = Stop_swap"
  then show "dropped (UiStep e) s = []" by simp
next
  assume "ui_pc s = Stop_swap"
  then show "held (step (UiStep e) s) = held s" by (rule swap_step_keeps)
next
  assume "ui_pc s = Start_clear"
  then show "dropped (UiStep e) s = saveBuffer s" by simp
next
  assume "ui_pc s = Start_clear"
  then show "saveBuffer (step (UiStep e) s) = []" by (simp add: ui_step_def)
next
  assume "no_discard sch s"
  then show "held (run sch s) = held s @ pushes sch s" by (rule held_run)
next
  show "\<not> (ui_pc (run sch2 init) = Stop_swap \<and> acq_pc (run sch2 init) = A_push img)"
    using mutual_exclusion [of sch2] by auto
qed

theorem frames_accounted_witness:
  "held (run sch_lost init) = [] \<and> drops sch_lost init = [Image [3]] \<and>
   pushes sch_lost init = [Image [3]] \<and>
   ui_pc (run sch_to_swap init) = Stop_swap \<and>
   held (step (UiStep env0) (run sch_to_swap init)) = [Image [1]] \<and>
   held (run sch_to_swap init) = [Image [1]] \<and>
   ui_pc (run sch_swap_restart (run sch_start init)) = Start_clear \<and>
   dropped (UiStep env0) (run sch_swap_restart (run sch_start init)) = [Image [3]] \<and>
   saveBuffer (step (UiStep env0) (run sch_swap_restart (run sch_start init))) = [] \<and>
   no_discard sch_swap_race (run (sch_start @ sch_frame (Image [1])) init) \<and>
   pushes sch_swap_race (run (sch_start @ sch_frame (Image [1])) init)
     = [Image [2], Image [3]] \<and>
   map frames (workers (run sch_swap_race (run (sch_start @ sch_frame (Image [1])) init)))
     = [[Image [1], Image [2]]] \<and>
   saveBuffer (run sch_swap_race (run (sch_start @ sch_frame (Image [1])) init))
     = [Image [3]] \<and>
   held (run sch_swap_race (run (sch_start @ sch_frame (Image [1])) init))
     = [Image [1], Image [2], Image [3]]"
  using
    frames_accounted [of sch_lost init env0 "[]" "Image [1]"]
    frames_accounted [of "[]" "run sch_to_swap init" env0 "[]" "Image [1]"]
    frames_accounted [of "[]" "run sch_swap_restart (run sch_start init)" env0 "[]" "Image [1]"]
    frames_accounted [of sch_swap_race "run (sch_start @ sch_frame (Image [1])) init" env0 "[]"
      "Image [1]"]
  by (simp add: sch_lost_def sch_to_swap_def sch_swap_race_def sch_swap_restart_def run_defs
      held_def)


subsection \<open>The save thread, run alone\<close>

lemma worker_loop:
  "workers s = [w] \<Longrightarrow> wpc w = W_loop \<Longrightarrow> w_i w + length oks \<le> length (frames w) \<Longrightarrow>
     run (map (WorkerStep 0) oks) s =
       s\<lparr>disk := disk s @ frame_writes (outDir w) (frames w) (w_i w) oks,
         ui_queue := ui_queue s @ progress_calls (length (frames w)) (w_i w) (length oks),
         workers := [w\<lparr>w_i := w_i w + length oks\<rparr>]\<rparr>"
proof (induction oks arbitrary: s w)
  case Nil
  from Nil(1) [symmetric] show ?case by simp
next
  case (Cons ok oks)
  let ?w = "w\<lparr>w_i := Suc (w_i w)\<rparr>"
  let ?s = "s\<lparr>disk := disk s @ frame_writes (outDir w) (frames w) (w_i w) [ok],
         ui_queue := ui_queue s @ progress_calls (length (frames w)) (w_i w) 1,
         workers := [?w]\<rparr>"
  from Cons.prems have st: "worker_step 0 ok s = ?s"
    by (simp add: worker_step_def frame_path_def)
  have "run (map (WorkerStep 0) oks) ?s =
       ?s\<lparr>disk := disk ?s @ frame_writes (outDir ?w) (frames ?w) (w_i ?w) oks,
         ui_queue := ui_queue ?s @ progress_calls (length (frames ?w)) (w_i ?w) (length oks),
         workers := [?w\<lparr>w_i := w_i ?w + length oks\<rparr>]\<rparr>"
    using Cons.prems by (intro Cons.IH) simp_all
  with st show ?case by simp
qed

lemma worker_tail:
  "workers s = [w] \<Longrightarrow> wpc w = W_loop \<Longrightarrow> w_i w = length (frames w) \<Longrightarrow>
     run [WorkerStep 0 a, WorkerStep 0 True, WorkerStep 0 b, WorkerStep 0 c] s =
       s\<lparr>disk := disk s @ [(filePath (outDir w) ''capture_info.txt'', TextFile (capture_info w))],
         ui_queue := ui_queue s @ [SetStatus ''Save complete'', HideDialog],
         saving := False, workers := []\<rparr>"
  by (simp add: worker_step_def capture_info_def)

lemma save_thread_run:
  assumes "workers s = [w]" "wpc w = W_loop" "w_i w = 0" "length oks = length (frames w)"
  shows "run (map (WorkerStep 0) oks @ [WorkerStep 0 a, WorkerStep 0 True, WorkerStep 0 b, WorkerStep 0 c]) s =
       s\<lparr>disk := disk s @ frame_writes (outDir w) (frames w) 0 oks
              @ [(filePath (outDir w) ''capture_info.txt'', TextFile (capture_info w))],
         ui_queue := ui_queue s @ progress_calls (length (frames w)) 0 (length (frames w))
              @ [SetStatus ''Save complete'', HideDialog],
         saving := False, workers := []\<rparr>"
proof -
  let ?w = "w\<lparr>w_i := length (frames w)\<rparr>"
  let ?s = "s\<lparr>disk := disk s @ frame_writes (outDir w) (frames w) 0 oks,
         ui_queue := ui_queue s @ progress_calls (length (frames w)) 0 (length (frames w)),
         workers := [?w]\<rparr>"
  have "run (map (WorkerStep 0) oks) s = ?s"
    using worker_loop [of s w oks] assms by simp
  moreover have "run [WorkerStep 0 a, WorkerStep 0 True, WorkerStep 0 b, WorkerStep 0 c] ?s =
       ?s\<lparr>disk := disk ?s @ [(filePath (outDir ?w) ''capture_info.txt'', TextFile (capture_info ?w))],
         ui_queue := ui_queue ?s @ [SetStatus ''Save complete'', HideDialog],
         saving := False, workers := []\<rparr>"
    using assms by (intro worker_tail) simp_all
  ultimately show ?thesis by (simp add: run_append capture_info_def)
qed


subsection \<open>File names\<close>

lemma ceil_log10_le: "n \<le> 10 ^ ceil_log10 n"
proof (induction n rule: ceil_log10.induct)
  case (1 n)
  show ?case
  proof (cases "n \<le> 1")
    case True
    then show ?thesis by (simp add: ceil_log10.simps)
  next
    case False
    then have "(n + 9) div 10 \<le> 10 ^ ceil_log10 ((n + 9) div 10)" using 1 by simp
    then have "n \<le> 10 * 10 ^ ceil_log10 ((n + 9) div 10)" by linarith
    with False show ?thesis by (subst ceil_log10.simps) simp
  qed
qed

lemma ceil_log10_least: "n \<le> 10 ^ k \<Longrightarrow> ceil_log10 n \<le> k"
proof (induction n arbitrary: k rule: ceil_log10.induct)
  case (1 n)
  show ?case
  proof (cases "n \<le> 1")
    case True
    then show ?thesis by (simp add: ceil_log10.simps)
  next
    case False
    with 1(2) obtain j where k: "k = Suc j" by (cases k) auto
    with 1(2) have "(n + 9) div 10 \<le> 10 ^ j" by simp
    with 1(1) False have "ceil_log10 ((n + 9) div 10) \<le> j" by simp
    with False k show ?thesis by (subst ceil_log10.simps) simp
  qed
qed

lemma ceil_log10_real: "0 < n \<Longrightarrow> int (ceil_log10 n) = \<lceil>log 10 (real n)\<rceil>"
proof (cases "ceil_log10 n")
  case 0
  assume "0 < n"
  moreover from 0 have "n \<le> 1" using ceil_log10_le [of n] by simp
  ultimately have "n = 1" by simp
  with 0 show ?thesis by simp
next
  case (Suc j)
  assume "0 < n"
  have "\<not> n \<le> 10 ^ j" using ceil_log10_least [of n j] Suc by auto
  then have "10 ^ j < n" by simp
  moreover have "n \<le> 10 ^ (j + 1)" using ceil_log10_le [of n] Suc by simp
  ultimately have "\<lceil>log (real (10::nat)) (real n)\<rceil> = int j + 1"
    by (intro ceiling_log_nat_eq_if) simp_all
  with Suc show ?thesis by simp
qed

lemma cast_int_small: "n < 2 ^ 31 \<Longrightarrow> cast_int n = int n"
proof -
  assume "n < 2 ^ 31"
  then have "int n < 2 ^ 31" by (metis of_nat_less_iff of_nat_numeral of_nat_power)
  then have "signed_take_bit 31 (int n) = int n"
    by (intro signed_take_bit_int_eq_self) simp_all
  then show ?thesis by (simp add: cast_int_def signed_of_nat)
qed

lemma length_string_of_nat: "n < 10 ^ Suc k \<Longrightarrow> length (string_of_nat n) \<le> Suc k"
proof (induction n arbitrary: k rule: string_of_nat.induct)
  case (1 n)
  show ?case
  proof (cases "n < 10")
    case True
    then show ?thesis by (simp add: string_of_nat.simps)
  next
    case False
    with 1(2) obtain j where k: "k = Suc j" by (cases k) auto
    with 1(2) have "n div 10 < 10 ^ Suc j" by simp
    with 1(1) False have "length (string_of_nat (n div 10)) \<le> Suc j" by simp
    with False k show ?thesis by (subst string_of_nat.simps) simp
  qed
qed

lemma length_zpad: "n < 10 ^ w \<Longrightarrow> 0 < w \<Longrightarrow> length (zpad w n) = w"
proof -
  assume a: "n < 10 ^ w" "0 < w"
  then obtain k where "w = Suc k" by (cases w) auto
  with a have "length (string_of_nat n) \<le> w" using length_string_of_nat [of n k] by simp
  then show ?thesis by (simp add: zpad_def)
qed

lemma frame_file_name_zpad: "i < 2 ^ 31 \<Longrightarrow> frame_file_name w i = zpad w i @ ''.tiff''"
  by (simp add: frame_file_name_def arg_int_def cast_int_small string_of_int_def zpad_def)

lemma digit_val_digit_char: "d < 10 \<Longrightarrow> digit_val (digit_char d) = d"
proof -
  assume "d < 10"
  then have "d \<in> {0, 1, 2, 3, 4, 5, 6, 7, 8, 9}" by auto
  then show ?thesis by (auto simp: digit_val_def digit_char_def)
qed

lemma digit_char_not_dot: "d < 10 \<Longrightarrow> digit_char d \<noteq> CHR ''.''"
proof -
  assume "d < 10"
  then have "d \<in> {0, 1, 2, 3, 4, 5, 6, 7, 8, 9}" by auto
  then show ?thesis by (auto simp: digit_char_def)
qed

lemma nat_of_digits_snoc: "nat_of_digits (cs @ [c]) = 10 * nat_of_digits cs + digit_val c"
  by (simp add: nat_of_digits_def)

lemma nat_of_digits_string_of_nat: "nat_of_digits (string_of_nat n) = n"
proof (induction n rule: string_of_nat.induct)
  case (1 n)
  show ?case
  proof (cases "n < 10")
    case True
    then show ?thesis by (simp add: string_of_nat.simps nat_of_digits_def digit_val_digit_char)
  next
    case False
    with 1 have "nat_of_digits (string_of_nat (n div 10)) = n div 10" by simp
    with False show ?thesis
      by (subst string_of_nat.simps) (simp add: nat_of_digits_snoc digit_val_digit_char)
  qed
qed

lemma nat_of_digits_zeros: "nat_of_digits (replicate k CHR ''0'' @ cs) = nat_of_digits cs"
proof (induction k)
  case 0
  then show ?case by simp
next
  case (Suc k)
  have "foldl (\<lambda>a c. 10 * a + digit_val c) 0 (CHR ''0'' # replicate k CHR ''0'' @ cs)
      = foldl (\<lambda>a c. 10 * a + digit_val c) 0 (replicate k CHR ''0'' @ cs)"
    by (simp add: digit_val_def)
  with Suc show ?case by (simp add: nat_of_digits_def)
qed

lemma string_of_nat_no_dot: "CHR ''.'' \<notin> set (string_of_nat n)"
proof (induction n rule: string_of_nat.induct)
  case (1 n)
  show ?case
  proof (cases "n < 10")
    case True
    then show ?thesis using digit_char_not_dot [of n] by (simp add: string_of_nat.simps)
  next
    case False
    with 1 have "CHR ''.'' \<notin> set (string_of_nat (n div 10))" by simp
    with False show ?thesis
      using digit_char_not_dot [of "n mod 10"] by (subst string_of_nat.simps) simp
  qed
qed

lemma file_index_zpad: "file_index (zpad w i @ ''.tiff'') = i"
proof -
  have "CHR ''.'' \<notin> set (zpad w i)" using string_of_nat_no_dot [of i] by (simp add: zpad_def)
  then have "takeWhile (\<lambda>c. c \<noteq> CHR ''.'') (zpad w i @ ''.tiff'')
      = zpad w i @ takeWhile (\<lambda>c. c \<noteq> CHR ''.'') ''.tiff''"
    by (intro takeWhile_append2) auto
  then have "takeWhile (\<lambda>c. c \<noteq> CHR ''.'') (zpad w i @ ''.tiff'') = zpad w i"
    by simp
  then show ?thesis
    by (simp add: file_index_def zpad_def nat_of_digits_zeros nat_of_digits_string_of_nat)
qed



lemma frame_writes_all:
  "frame_writes out fr i (replicate k True) =
     map (\<lambda>j. (filePath out (frame_file_name (name_width (length fr)) j), TiffFile (fr ! j)))
       [i..<i + k]"
proof (induction k arbitrary: i)
  case 0
  then show ?case by simp
next
  case (Suc k)
  have "[i..<i + Suc k] = i # [Suc i..<Suc i + k]" by (simp add: upt_conv_Cons)
  with Suc [of "Suc i"] show ?case by simp
qed

lemma name_width_pos: "0 < n \<Longrightarrow> name_width n = max 6 (ceil_log10 n)"
  by (simp add: name_width_def max_def)

lemma index_below_width: "i < n \<Longrightarrow> i < 10 ^ max 6 (ceil_log10 n)"
proof -
  assume "i < n"
  also have "n \<le> 10 ^ ceil_log10 n" by (rule ceil_log10_le)
  also have "(10::nat) ^ ceil_log10 n \<le> 10 ^ max 6 (ceil_log10 n)"
    by (intro power_increasing) simp_all
  finally show ?thesis .
qed

lemma filePath_inject: "filePath d x = filePath d y \<Longrightarrow> x = y"
  by (simp add: filePath_def)

lemma frame_paths_distinct:
  "distinct (map (\<lambda>i. filePath out (zpad wd i @ ''.tiff'')) [0..<n])"
proof -
  have "inj_on (\<lambda>i. filePath out (zpad wd i @ ''.tiff'')) (set [0..<n])"
  proof (rule inj_onI)
    fix i j
    assume "filePath out (zpad wd i @ ''.tiff'') = filePath out (zpad wd j @ ''.tiff'')"
    then have "zpad wd i @ ''.tiff'' = zpad wd j @ ''.tiff''" by (rule filePath_inject)
    then have "file_index (zpad wd i @ ''.tiff'') = file_index (zpad wd j @ ''.tiff'')" by simp
    then show "i = j" by (simp only: file_index_zpad)
  qed
  then show ?thesis by (simp add: distinct_map)
qed

lemma info_path_fresh:
  "filePath out ''capture_info.txt'' \<notin> set (map (\<lambda>i. filePath out (g i @ ''.tiff'')) xs)"
proof
  assume "filePath out ''capture_info.txt'' \<in> set (map (\<lambda>i. filePath out (g i @ ''.tiff'')) xs)"
  then obtain i where "filePath out ''capture_info.txt'' = filePath out (g i @ ''.tiff'')" by auto
  then have "''capture_info.txt'' = g i @ ''.tiff''" by (rule filePath_inject)
  then have "last ''capture_info.txt'' = last (g i @ ''.tiff'')" by simp
  then show False by simp
qed

lemma tiff_entries_append: "tiff_entries d (xs @ ys) = tiff_entries d xs @ tiff_entries d ys"
  by (induction d xs rule: tiff_entries.induct) simp_all

lemma tiff_entries_written:
  "tiff_entries d (map (\<lambda>i. (filePath d (g i), TiffFile (h i))) xs) = map (\<lambda>i. (g i, h i)) xs"
  by (induction xs) (simp_all add: filePath_def)

lemma read_sequence_written:
  "read_sequence out
     (map (\<lambda>i. (filePath out (zpad wd i @ ''.tiff''), TiffFile (fr ! i))) [0..<length fr]
      @ [(p, TextFile t)]) = fr"
proof -
  let ?es = "map (\<lambda>i. (zpad wd i @ ''.tiff'', fr ! i)) [0..<length fr]"
  have e: "tiff_entries out
     (map (\<lambda>i. (filePath out (zpad wd i @ ''.tiff''), TiffFile (fr ! i))) [0..<length fr]
      @ [(p, TextFile t)]) = ?es"
    by (simp add: tiff_entries_append tiff_entries_written)
  have "map (\<lambda>x. file_index (fst x)) ?es = [0..<length fr]"
    by (simp add: o_def file_index_zpad)
  then have "sorted (map (\<lambda>x. file_index (fst x)) ?es)" by simp
  then have "sort_key (\<lambda>x. file_index (fst x)) ?es = ?es" by (rule sort_key_id_if_sorted)
  with e have "read_sequence out
     (map (\<lambda>i. (filePath out (zpad wd i @ ''.tiff''), TiffFile (fr ! i))) [0..<length fr]
      @ [(p, TextFile t)]) = map snd ?es"
    by (simp add: read_sequence_def)
  also have "map snd ?es = map ((!) fr) [0..<length fr]" by (simp add: o_def)
  also have "\<dots> = fr" by (rule map_nth)
  finally show ?thesis .
qed

lemma written_names:
  assumes "0 < length fr" "length fr \<le> 2 ^ 31"
  shows "map (\<lambda>j. (filePath out (frame_file_name (name_width (length fr)) j), TiffFile (fr ! j)))
       [0..<length fr]
     = map (\<lambda>i. (filePath out (zpad (max 6 (ceil_log10 (length fr))) i @ ''.tiff''),
         TiffFile (fr ! i))) [0..<length fr]"
proof (rule map_cong [OF refl])
  fix j
  assume "j \<in> set [0..<length fr]"
  with assms have "j < 2 ^ 31" by simp
  then show "(filePath out (frame_file_name (name_width (length fr)) j), TiffFile (fr ! j))
     = (filePath out (zpad (max 6 (ceil_log10 (length fr))) j @ ''.tiff''), TiffFile (fr ! j))"
    using assms by (simp add: frame_file_name_zpad name_width_pos)
qed

lemma big_width: "name_width 2147483649 = 10"
  by (simp add: name_width_def ceil_log10.simps)

lemma big_cast: "cast_int 2147483648 = - 2147483648"
  by (simp add: cast_int_def)

lemma big_name: "frame_file_name 10 2147483648 = ''-2147483648.tiff''"
  by (simp add: frame_file_name_def arg_int_def big_cast string_of_int_def
      string_of_nat.simps digit_char_def)

lemma big_zpad: "zpad (max 6 (ceil_log10 2147483649)) 2147483648 @ ''.tiff'' = ''2147483648.tiff''"
  by (simp add: ceil_log10.simps zpad_def string_of_nat.simps digit_char_def)

lemma worker_write_step:
  "workers s = [w] \<Longrightarrow> wpc w = W_loop \<Longrightarrow> w_i w < length (frames w) \<Longrightarrow>
     disk (worker_step 0 True s) = disk s @ [(frame_path w (w_i w), TiffFile (frames w ! w_i w))]"
  by (simp add: worker_step_def)

text \<open>
  Claim C1, as the specification states it, fails for the longest sessions: the index is
  cast to \<^verbatim>\<open>int\<close> before it is formatted (line 1005). In a session of \<open>2^31 + 1\<close> frames
  the last frame, of index \<open>2^31\<close>, is written as \<^verbatim>\<open>-2147483648.tiff\<close>, where the claim
  has \<^verbatim>\<open>2147483648.tiff\<close>.
\<close>

theorem frame_index_cast_counterexample:
  "length (saveBuffer long_session) = 2147483649 \<and>
   last (disk (run (map (WorkerStep 0) (replicate 2147483649 True))
          (stopSaving env0 long_session)))
     = (''C:/data/20240305_140709/-2147483648.tiff'', TiffFile (Image [])) \<and>
   zpad (max 6 (ceil_log10 2147483649)) 2147483648 @ ''.tiff'' = ''2147483648.tiff''"
proof -
  let ?fr = "replicate 2147483649 (Image [])"
  let ?out = "''C:/data/20240305_140709''"
  let ?w = "\<lparr>frames = ?fr, outDir = ?out, metaCopy = lastMeta long_session,
      expMsCopy = exposureValue env0,
      recordStartStr = fmt_start (recordStartTime long_session), w_i = 0, wpc = W_loop\<rparr>"
  let ?s1 = "stopSaving env0 long_session"
  have pre: "recording long_session" "saveMutex long_session = None"
      "saveBuffer long_session = ?fr" "workers long_session = []"
    by (simp_all add: long_session_def init_def)
  have ne: "saveBuffer long_session \<noteq> []" by (simp add: pre(3))
  have w1: "workers ?s1 = [?w]"
    using pre by (simp add: stopSaving_frames [OF pre(1,2) ne] sample_texts)
  have split: "replicate 2147483649 True = replicate 2147483648 True @ [True]"
    using replicate_add [of 2147483648 1 True] by simp
  have bound: "w_i ?w + length (replicate 2147483648 True) \<le> length (frames ?w)"
    by simp
  have pc: "wpc ?w = W_loop" by simp
  note loop = worker_loop [OF w1 pc bound]
  let ?s2 = "run (map (WorkerStep 0) (replicate 2147483648 True)) ?s1"
  have w2: "workers ?s2 = [?w\<lparr>w_i := 2147483648\<rparr>]"
    unfolding loop by simp
  let ?w2 = "?w\<lparr>w_i := 2147483648\<rparr>"
  have pc2: "wpc ?w2 = W_loop" and in2: "w_i ?w2 < length (frames ?w2)" by simp_all
  have entry: "(frame_path ?w2 (w_i ?w2), TiffFile (frames ?w2 ! w_i ?w2))
      = (''C:/data/20240305_140709/-2147483648.tiff'', TiffFile (Image []))"
    by (simp add: frame_path_def big_width big_name filePath_def)
  have "last (disk (worker_step 0 True ?s2))
      = (''C:/data/20240305_140709/-2147483648.tiff'', TiffFile (Image []))"
    unfolding worker_write_step [OF w2 pc2 in2] entry by simp
  moreover have "run (map (WorkerStep 0) (replicate 2147483649 True)) ?s1 = worker_step 0 True ?s2"
    unfolding split by (simp add: run_append)
  ultimately show ?thesis using big_zpad by (simp add: pre(3))
qed

text \<open>
  Claim C1, amended by the bound on \<open>n\<close>. Let a session be stopped with \<open>n > 0\<close> buffered
  frames, \<open>n\<close> at most \<open>2^31\<close> so that every index fits the \<^verbatim>\<open>int\<close> it is cast to, and let
  the save thread run to its end with every file operation succeeding. Then the thread
  has ended and has written, in this order, the \<open>n\<close> frames in acquisition order under the
  names \<open>0 .. n - 1\<close>, each zero-padded to exactly \<open>max 6 \<lceil>log10 n\<rceil>\<close> digits and followed by
  \<open>.tiff\<close>, and then one \<^verbatim>\<open>capture_info.txt\<close>, all in the directory that \<^verbatim>\<open>stopSaving\<close>
  requested; the names are distinct, none is the metadata file's, and reading the image
  files back in the numeric order of their names gives the frames in acquisition order.
\<close>

theorem save_sequence_round_trip:
  assumes "recording s" and "saveMutex s = None" and "workers s = []"
    and "saveBuffer s = fr" and "fr \<noteq> []" and "length fr \<le> 2 ^ 31"
    and "out = filePath (baseDir e) (fmt_dir (now e))"
    and "wd = max 6 (ceil_log10 (length fr))"
    and "written = map (\<lambda>i. (filePath out (zpad wd i @ ''.tiff''), TiffFile (fr ! i)))
           [0..<length fr]"
    and "info = (filePath out ''capture_info.txt'',
           TextFile (capture_info \<lparr>frames = fr, outDir = out, metaCopy = lastMeta s,
             expMsCopy = exposureValue e, recordStartStr = fmt_start (recordStartTime s),
             w_i = 0, wpc = W_loop\<rparr>))"
    and "s' = run (map (WorkerStep 0) (replicate (length fr + 4) True)) (stopSaving e s)"
  shows "workers s' = [] \<and> dirs s' = dirs s @ [baseDir e, out] \<and>
    disk s' = disk s @ written @ [info] \<and>
    (\<forall>i < length fr. length (zpad wd i) = wd) \<and>
    distinct (map fst written) \<and> fst info \<notin> set (map fst written) \<and>
    read_sequence out (written @ [info]) = fr"
proof -
  let ?w = "\<lparr>frames = fr, outDir = out, metaCopy = lastMeta s,
             expMsCopy = exposureValue e, recordStartStr = fmt_start (recordStartTime s),
             w_i = 0, wpc = W_loop\<rparr>"
  let ?s1 = "stopSaving e s"
  have w1: "workers ?s1 = [?w]" and d1: "disk ?s1 = disk s"
    and dr1: "dirs ?s1 = dirs s @ [baseDir e, out]"
    using assms by (simp_all add: stopSaving_frames)
  have sched: "map (WorkerStep 0) (replicate (length fr + 4) True)
      = map (WorkerStep 0) (replicate (length fr) True)
        @ [WorkerStep 0 True, WorkerStep 0 True, WorkerStep 0 True, WorkerStep 0 True]"
  proof -
    have "replicate 4 True = [True, True, True, True]" by (simp add: eval_nat_numeral)
    then show ?thesis by (simp add: replicate_add)
  qed
  have "s' = ?s1\<lparr>disk := disk ?s1 @ frame_writes (outDir ?w) (frames ?w) 0 (replicate (length fr) True)
              @ [(filePath (outDir ?w) ''capture_info.txt'', TextFile (capture_info ?w))],
         ui_queue := ui_queue ?s1 @ progress_calls (length (frames ?w)) 0 (length (frames ?w))
              @ [SetStatus ''Save complete'', HideDialog],
         saving := False, workers := []\<rparr>"
    unfolding assms(11) sched using w1 by (intro save_thread_run) simp_all
  then have run: "workers s' = []"
      "disk s' = disk s @ frame_writes out fr 0 (replicate (length fr) True) @ [info]"
      "dirs s' = dirs s @ [baseDir e, out]"
    using d1 dr1 assms(10) by simp_all
  have "frame_writes out fr 0 (replicate (length fr) True) = written"
    using assms(5,6) unfolding assms(8,9)
    by (simp add: frame_writes_all written_names del: upt_Suc)
  with run have disk: "disk s' = disk s @ written @ [info]" by simp
  have len: "\<forall>i < length fr. length (zpad wd i) = wd"
    unfolding assms(8) by (simp add: length_zpad index_below_width)
  have dist: "distinct (map fst written)"
    unfolding assms(9) using frame_paths_distinct [of out wd "length fr"] by (simp add: o_def)
  have fresh: "fst info \<notin> set (map fst written)"
    unfolding assms(9,10) using info_path_fresh [of out "zpad wd" "[0..<length fr]"]
    by (simp add: o_def)
  have rd: "read_sequence out (written @ [info]) = fr"
    unfolding assms(9,10) by (rule read_sequence_written)
  from run(1,3) disk len dist fresh rd show ?thesis by simp
qed


theorem save_sequence_round_trip_witness:
  "recording (run sch_two init) \<and> saveMutex (run sch_two init) = None \<and>
   workers (run sch_two init) = [] \<and> saveBuffer (run sch_two init) = [Image [1], Image [2]] \<and>
   disk (run (map (WorkerStep 0) (replicate (length [Image [1], Image [2]] + 4) True))
          (stopSaving env0 (run sch_two init)))
     = [(''C:/data/20240305_140709/000000.tiff'', TiffFile (Image [1])),
        (''C:/data/20240305_140709/000001.tiff'', TiffFile (Image [2])),
        (''C:/data/20240305_140709/capture_info.txt'',
           TextFile (capture_info \<lparr>frames = [Image [1], Image [2]],
             outDir = ''C:/data/20240305_140709'', metaCopy = meta0, expMsCopy = 10,
             recordStartStr = ''2024-03-05 14:07:09.042'', w_i = 0, wpc = W_loop\<rparr>))] \<and>
   read_sequence ''C:/data/20240305_140709''
       [(''C:/data/20240305_140709/000000.tiff'', TiffFile (Image [1])),
        (''C:/data/20240305_140709/000001.tiff'', TiffFile (Image [2])),
        (''C:/data/20240305_140709/capture_info.txt'',
           TextFile (capture_info \<lparr>frames = [Image [1], Image [2]],
             outDir = ''C:/data/20240305_140709'', metaCopy = meta0, expMsCopy = 10,
             recordStartStr = ''2024-03-05 14:07:09.042'', w_i = 0, wpc = W_loop\<rparr>))]
     = [Image [1], Image [2]]"
proof -
  let ?fr = "[Image [1], Image [2]]"
  have size: "?fr \<noteq> []" "length ?fr \<le> 2 ^ 31"
    by simp_all
  have out: "filePath (baseDir env0) (fmt_dir (now env0)) = ''C:/data/20240305_140709''"
    by (rule sample_texts)
  have l2: "length ?fr = 2" by simp
  have wd: "max 6 (ceil_log10 (length ?fr)) = 6"
    unfolding l2 by (rule ceil_log10_2)
  have written: "map (\<lambda>i. (filePath ''C:/data/20240305_140709'' (zpad 6 i @ ''.tiff''),
        TiffFile (?fr ! i))) [0..<length ?fr]
      = [(''C:/data/20240305_140709/000000.tiff'', TiffFile (Image [1])),
         (''C:/data/20240305_140709/000001.tiff'', TiffFile (Image [2]))]"
    by (simp add: upt_rec sample_texts filePath_def)
  have info: "filePath ''C:/data/20240305_140709'' ''capture_info.txt''
      = ''C:/data/20240305_140709/capture_info.txt''"
    by (simp add: filePath_def)
  have ex: "exposureValue env0 = 10" by (simp add: env0_def)
  note rt = save_sequence_round_trip [OF sch_two_state(1-4) size refl refl refl refl refl,
      of env0, unfolded out wd written info sch_two_state sample_texts ex]
  from rt show ?thesis
    by (simp add: sch_two_state)
qed


subsection \<open>Capturing one frame\<close>













subsection \<open>The metadata file\<close>

lemma frame_writes_tiff:
  "(p, f) \<in> set (frame_writes out fr i oks) \<Longrightarrow> \<exists>x. p = filePath out (x @ ''.tiff'')"
  by (induction oks arbitrary: i) (auto simp: frame_file_name_def split: if_splits)

lemma info_not_a_frame:
  "filePath out ''capture_info.txt'' \<notin> fst ` set (frame_writes out fr i oks)"
proof
  assume "filePath out ''capture_info.txt'' \<in> fst ` set (frame_writes out fr i oks)"
  then obtain f where "(filePath out ''capture_info.txt'', f) \<in> set (frame_writes out fr i oks)"
    by auto
  then obtain x where "filePath out ''capture_info.txt'' = filePath out (x @ ''.tiff'')"
    using frame_writes_tiff by blast
  then have "''capture_info.txt'' = x @ ''.tiff''" by (rule filePath_inject)
  then have "last ''capture_info.txt'' = last (x @ ''.tiff'')" by simp
  then show False by simp
qed

lemma recordStartTime_step:
  "ui_pc s \<noteq> Start_finish \<Longrightarrow> recordStartTime (step a s) = recordStartTime s"
proof (cases a)
  case (UiStep e)
  then show "ui_pc s \<noteq> Start_finish \<Longrightarrow> ?thesis"
    by (cases "ui_pc s") (simp_all add: ui_step_def)
next
  case (WorkerStep k ok)
  then show ?thesis by (cases "wpc (workers s ! k)") (simp_all add: worker_step_def Let_def)
next
  case AcqStep
  then show ?thesis by (cases "acq_pc s") (simp_all add: acq_step_def)
next
  case UiDispatch
  then show ?thesis by (simp add: ui_dispatch_def split: list.splits ui_call.splits)
qed (simp_all add: captureFrame_def frameReady_def recordHook_def)

text \<open>
  Claim C6. Let a session be stopped with frames buffered, let the grabber then report
  a frame with other metadata, and let the save thread run to its end, the image writes
  succeeding or not and the metadata file opening. Then after the image files the
  thread has written one \<^verbatim>\<open>capture_info.txt\<close> in the same directory, whose path is none
  of theirs, with the eight lines Start, Frames, Resolution, Binning, Bits, Exposure(ms),
  Internal FPS and Readout speed. Their values are those present when \<^verbatim>\<open>stopSaving\<close>
  ran, not the metadata current at the end: the number of frames, \<^verbatim>\<open>lastMeta\<close>, the
  exposure, and \<^verbatim>\<open>recordStartTime\<close> written as four digits of the year, two of the month
  and two of the day, joined by hyphens, a space, two digits each of the hour, the
  minute and the second, joined by colons, a dot and three digits of the milliseconds
  (nothing, if no session was ever started). The thread has then posted "Save complete"
  and the hiding of the dialog to the GUI thread, cleared \<^verbatim>\<open>saving\<close> and ended.
  \<^verbatim>\<open>recordStartTime\<close> is the time of the session's start: the last statement of
  \<^verbatim>\<open>startSaving\<close> sets it to the clock reading, and no other step of any thread changes
  it.
\<close>

theorem save_thread_metadata:
  assumes "recording s" and "saveMutex s = None" and "workers s = []"
    and "saveBuffer s = fr" and "fr \<noteq> []" and "length oks = length fr"
    and "out = filePath (baseDir e) (fmt_dir (now e))"
    and "s' = run (FrameReady img m # map (WorkerStep 0) oks
                 @ [WorkerStep 0 a, WorkerStep 0 True, WorkerStep 0 b, WorkerStep 0 c])
               (stopSaving e s)"
  shows "disk s' = disk s @ frame_writes out fr 0 oks @
      [(filePath out ''capture_info.txt'',
        TextFile
          [[TStr ''Start: '',
            TStr (case recordStartTime s of
                  None \<Rightarrow> []
                | Some t \<Rightarrow>
                    zpad 4 (year t) @ ''-'' @ zpad 2 (month t) @ ''-'' @ zpad 2 (day t)
                    @ '' '' @ zpad 2 (hour t) @ '':'' @ zpad 2 (minute t) @ '':''
                    @ zpad 2 (second t) @ ''.'' @ zpad 3 (msec t))],
           [TStr ''Frames: '', TSize (length fr)],
           [TStr ''Resolution: '', TInt (width (lastMeta s)), TStr '' x '',
            TInt (height (lastMeta s))],
           [TStr ''Binning: '', TDbl (binning (lastMeta s))],
           [TStr ''Bits: '', TInt (bits (lastMeta s))],
           [TStr ''Exposure(ms): '', TDbl (exposureValue e)],
           [TStr ''Internal FPS: '', TDbl (internalFps (lastMeta s))],
           [TStr ''Readout speed: '', TDbl (readoutSpeed (lastMeta s))]])] \<and>
    filePath out ''capture_info.txt'' \<notin> fst ` set (frame_writes out fr 0 oks) \<and>
    ui_queue s' = ui_queue s @ progress_calls (length fr) 0 (length fr)
      @ [SetStatus ''Save complete'', HideDialog] \<and>
    \<not> saving s' \<and> workers s' = [] \<and> lastMeta s' = m \<and>
    (ui_pc sa = Start_finish \<longrightarrow> recordStartTime (step (UiStep ea) sa) = Some (now ea)) \<and>
    (ui_pc sb \<noteq> Start_finish \<longrightarrow> recordStartTime (step ab sb) = recordStartTime sb)"
proof -
  let ?w = "\<lparr>frames = fr, outDir = out, metaCopy = lastMeta s,
             expMsCopy = exposureValue e, recordStartStr = fmt_start (recordStartTime s),
             w_i = 0, wpc = W_loop\<rparr>"
  let ?s1 = "stopSaving e s"
  let ?s2 = "frameReady img m ?s1"
  have h1: "workers ?s1 = [?w]" "disk ?s1 = disk s" "ui_queue ?s1 = ui_queue s"
      "ui_pc ?s1 = Idle"
    using assms by (simp_all add: stopSaving_frames)
  then have h2: "workers ?s2 = [?w]" "disk ?s2 = disk s" "ui_queue ?s2 = ui_queue s"
      "lastMeta ?s2 = m"
    by (simp_all add: frameReady_def)
  have "s' = run (map (WorkerStep 0) oks
                 @ [WorkerStep 0 a, WorkerStep 0 True, WorkerStep 0 b, WorkerStep 0 c]) ?s2"
    unfolding assms(8) using h1(4) by simp
  also have "\<dots> = ?s2\<lparr>disk := disk ?s2 @ frame_writes (outDir ?w) (frames ?w) 0 oks
              @ [(filePath (outDir ?w) ''capture_info.txt'', TextFile (capture_info ?w))],
         ui_queue := ui_queue ?s2 @ progress_calls (length (frames ?w)) 0 (length (frames ?w))
              @ [SetStatus ''Save complete'', HideDialog],
         saving := False, workers := []\<rparr>"
    using h2(1) assms(6) by (intro save_thread_run) simp_all
  finally have "s' = ?s2\<lparr>disk := disk ?s2 @ frame_writes (outDir ?w) (frames ?w) 0 oks
              @ [(filePath (outDir ?w) ''capture_info.txt'', TextFile (capture_info ?w))],
         ui_queue := ui_queue ?s2 @ progress_calls (length (frames ?w)) 0 (length (frames ?w))
              @ [SetStatus ''Save complete'', HideDialog],
         saving := False, workers := []\<rparr>" .
  then have "disk s' = disk s @ frame_writes out fr 0 oks
        @ [(filePath out ''capture_info.txt'', TextFile (capture_info ?w))]"
      "ui_queue s' = ui_queue s @ progress_calls (length fr) 0 (length fr)
        @ [SetStatus ''Save complete'', HideDialog]"
      "\<not> saving s'" "workers s' = []" "lastMeta s' = m"
    using h2 by simp_all
  moreover have "ui_pc sa = Start_finish \<longrightarrow>
      recordStartTime (step (UiStep ea) sa) = Some (now ea)"
    by (simp add: ui_step_def)
  moreover have "ui_pc sb \<noteq> Start_finish \<longrightarrow>
      recordStartTime (step ab sb) = recordStartTime sb"
    by (simp add: recordStartTime_step)
  ultimately show ?thesis
    using info_not_a_frame [of out fr 0 oks] by (simp add: capture_info_def fmt_start_def)
qed

theorem save_thread_metadata_witness:
  "recording (run sch_two init) \<and> saveMutex (run sch_two init) = None \<and>
   workers (run sch_two init) = [] \<and> saveBuffer (run sch_two init) = [Image [1], Image [2]] \<and>
   lastMeta (run sch_two init) = meta0 \<and> recordStartTime (run sch_two init) = Some t0 \<and>
   disk (run (FrameReady (Image [8]) meta1 # map (WorkerStep 0) [True, False]
                 @ [WorkerStep 0 True, WorkerStep 0 True, WorkerStep 0 True, WorkerStep 0 True])
               (stopSaving env0 (run sch_two init)))
     = [(''C:/data/20240305_140709/000000.tiff'', TiffFile (Image [1])),
        (''C:/data/20240305_140709/capture_info.txt'',
         TextFile
          [[TStr ''Start: '', TStr ''2024-03-05 14:07:09.042''],
           [TStr ''Frames: '', TSize 2],
           [TStr ''Resolution: '', TInt 2304, TStr '' x '', TInt 1152],
           [TStr ''Binning: '', TDbl 2],
           [TStr ''Bits: '', TInt 16],
           [TStr ''Exposure(ms): '', TDbl 10],
           [TStr ''Internal FPS: '', TDbl 100],
           [TStr ''Readout speed: '', TDbl 3]])] \<and>
   lastMeta (run (FrameReady (Image [8]) meta1 # map (WorkerStep 0) [True, False]
                 @ [WorkerStep 0 True, WorkerStep 0 True, WorkerStep 0 True, WorkerStep 0 True])
               (stopSaving env0 (run sch_two init))) = meta1 \<and>
   \<not> saving (run (FrameReady (Image [8]) meta1 # map (WorkerStep 0) [True, False]
                 @ [WorkerStep 0 True, WorkerStep 0 True, WorkerStep 0 True, WorkerStep 0 True])
               (stopSaving env0 (run sch_two init))) \<and>
   ui_pc (run (butlast sch_start) init) = Start_finish \<and>
   recordStartTime (step (UiStep env0) (run (butlast sch_start) init)) = Some t0 \<and>
   ui_pc (run sch_two init) \<noteq> Start_finish \<and>
   recordStartTime (step (Hook (Image [3])) (run sch_two init)) = Some t0"
proof -
  let ?fr = "[Image [1], Image [2]]"
  have size: "?fr \<noteq> []" "length [True, False] = length ?fr"
    by simp_all
  have out: "filePath (baseDir env0) (fmt_dir (now env0)) = ''C:/data/20240305_140709''"
    by (rule sample_texts)
  have "name_width 2 = 6"
    by (simp add: name_width_def ceil_log10.simps)
  then have w: "name_width (Suc (Suc 0)) = 6"
    by (simp add: numeral_2_eq_2)
  have written: "frame_writes ''C:/data/20240305_140709'' ?fr 0 [True, False]
      = [(''C:/data/20240305_140709/000000.tiff'', TiffFile (Image [1]))]"
    by (simp add: w frame_file_name_zpad sample_texts filePath_def)
  have info: "filePath ''C:/data/20240305_140709'' ''capture_info.txt''
      = ''C:/data/20240305_140709/capture_info.txt''"
    by (simp add: filePath_def)
  have ex: "exposureValue env0 = 10" by (simp add: env0_def)
  have nw: "now env0 = t0" by (simp add: env0_def)
  have st: "(case Some t0 of
                  None \<Rightarrow> []
                | Some t \<Rightarrow>
                    zpad 4 (year t) @ ''-'' @ zpad 2 (month t) @ ''-'' @ zpad 2 (day t)
                    @ '' '' @ zpad 2 (hour t) @ '':'' @ zpad 2 (minute t) @ '':''
                    @ zpad 2 (second t) @ ''.'' @ zpad 3 (msec t))
      = ''2024-03-05 14:07:09.042''"
    by (simp add: t0_def zpad_def string_of_nat.simps digit_char_def)
  have pcs: "ui_pc (run (butlast sch_start) init) = Start_finish"
      "ui_pc (run sch_two init) \<noteq> Start_finish"
    by (simp_all add: sch_two_def run_defs frameReady_def)
  note rt = save_thread_metadata [where e = env0 and img = "Image [8]" and m = meta1
      and a = True and b = True and c = True and sa = "run (butlast sch_start) init"
      and ea = env0 and sb = "run sch_two init" and ab = "Hook (Image [3])",
      OF sch_two_state(1-4) size refl refl,
      unfolded out written info sch_two_state ex st]
  from rt pcs show ?thesis
    by (simp add: sch_two_state meta0_def nw)
qed

end
